theory Spec2Isabelle
  imports Main "HOL-Library.Word" "HOL-Library.AList"
begin

unbundle bit_operations_syntax

section \<open>Bytes, slices and integers read from bytes\<close>

text \<open>
  A Python \<open>bytes\<close> value is a list of 8-bit words. Offsets and lengths are natural
  numbers: every offset of the decoders starts at a non-negative value and only grows.
  A Python \<open>str\<close> is a list of Unicode code points.
\<close>

type_synonym byte = "8 word"
type_synonym pystr = "nat list"

text \<open>What the decoders can raise.\<close>

datatype error = UnicodeDecodeError | ValueError | OverflowError

text \<open>
  \<open>data[a:b]\<close> for \<open>0 \<le> a\<close>: the slice is cut at the end of the buffer and is empty
  when \<open>b \<le> a\<close>; slicing never raises.
\<close>

definition slice :: "'a list \<Rightarrow> nat \<Rightarrow> nat \<Rightarrow> 'a list" where
  "slice data a b = take (b - a) (drop a data)"

text \<open>\<open>int.from_bytes(bs, 'little')\<close> and \<open>int.from_bytes(bs, 'big')\<close>; the empty
  sequence gives 0.\<close>

fun le_nat :: "byte list \<Rightarrow> nat" where
  "le_nat [] = 0"
| "le_nat (b # bs) = unat b + 256 * le_nat bs"

definition be_nat :: "byte list \<Rightarrow> nat" where
  "be_nat bs = le_nat (rev bs)"

text \<open>
  \<open>int.from_bytes(bs, 'little', signed=True)\<close>: two's complement on the width of the
  bytes actually given, so two bytes \<open>ff ff\<close> read as \<open>-1\<close> whatever width was asked for.
\<close>

definition le_int_signed :: "byte list \<Rightarrow> int" where
  "le_int_signed bs =
     (if bs \<noteq> [] \<and> 2 ^ (8 * length bs - 1) \<le> le_nat bs
      then int (le_nat bs) - 2 ^ (8 * length bs)
      else int (le_nat bs))"

text \<open>
  \<open>struct.unpack_from("<I", data, offset)[0]\<close>. The library call raises when fewer than
  four bytes remain at \<open>offset\<close>; every call site of the source tests the length first,
  and the tests are kept in the callers below.
\<close>

definition unpack_I :: "byte list \<Rightarrow> nat \<Rightarrow> nat" where
  "unpack_I data offset = le_nat (slice data offset (offset + 4))"

text \<open>
  \<open>struct.unpack_from("<d", data, offset)[0]\<close>: the eight bytes of an IEEE-754 double,
  kept as its 64-bit pattern.
\<close>

definition unpack_d :: "byte list \<Rightarrow> nat \<Rightarrow> 64 word" where
  "unpack_d data offset = word_of_nat (le_nat (slice data offset (offset + 8)))"

section \<open>PcbLib: blocks\<close>

text \<open>
  \<^verbatim>\<open>
  def read_block(data, offset):
      if offset + 4 > len(data):
          return b"", offset
      block_len = struct.unpack_from("<I", data, offset)[0]
      if block_len > 100000 or offset + 4 + block_len > len(data):
          return b"", offset
      block_data = data[offset + 4 : offset + 4 + block_len]
      return block_data, offset + 4 + block_len
  \<close>
\<close>

definition read_block :: "byte list \<Rightarrow> nat \<Rightarrow> byte list \<times> nat" where
  "read_block data offset =
     (if offset + 4 > length data then ([], offset)
      else let block_len = unpack_I data offset in
        if block_len > 100000 \<or> offset + 4 + block_len > length data then ([], offset)
        else (slice data (offset + 4) (offset + 4 + block_len), offset + 4 + block_len))"

text \<open>The three conditions under which \<open>read_block\<close> takes one of its failure returns.\<close>

definition read_block_fails :: "byte list \<Rightarrow> nat \<Rightarrow> bool" where
  "read_block_fails data offset \<longleftrightarrow>
     offset + 4 > length data \<or> unpack_I data offset > 100000 \<or>
     offset + 4 + unpack_I data offset > length data"

text \<open>
  A buffer of \<open>offset\<close> zero bytes: when \<open>offset\<close> is at least 4, its last four
  bytes are a block of length zero that ends at \<open>offset\<close>.
\<close>

definition zero_block_before :: "nat \<Rightarrow> byte list" where
  "zero_block_before offset = replicate offset 0"

section \<open>Text codecs\<close>

text \<open>
  \<open>bytes.decode('windows-1252')\<close>, in the default strict mode. Python's code page
  leaves five byte values without a character: \<open>0x81\<close>, \<open>0x8D\<close>, \<open>0x8F\<close>,
  \<open>0x90\<close> and \<open>0x9D\<close>; decoding a sequence that holds one of them raises
  \<open>UnicodeDecodeError\<close>. Bytes below \<open>0x80\<close> and from \<open>0xA0\<close> map to the code
  point of the same value; the others follow the table.
\<close>

definition cp1252_undefined :: "byte set" where
  "cp1252_undefined = {0x81, 0x8D, 0x8F, 0x90, 0x9D}"

definition cp1252_table :: "nat list" where
  "cp1252_table =
     [0x20AC, 0x0081, 0x201A, 0x0192, 0x201E, 0x2026, 0x2020, 0x2021,
      0x02C6, 0x2030, 0x0160, 0x2039, 0x0152, 0x008D, 0x017D, 0x008F,
      0x0090, 0x2018, 0x2019, 0x201C, 0x201D, 0x2022, 0x2013, 0x2014,
      0x02DC, 0x2122, 0x0161, 0x203A, 0x0153, 0x009D, 0x017E, 0x0178]"

definition cp1252_char :: "byte \<Rightarrow> nat option" where
  "cp1252_char b =
     (if b \<in> cp1252_undefined then None
      else if unat b < 0x80 \<or> 0xA0 \<le> unat b then Some (unat b)
      else Some (cp1252_table ! (unat b - 0x80)))"

fun decode_cp1252 :: "byte list \<Rightarrow> error + pystr" where
  "decode_cp1252 [] = Inr []"
| "decode_cp1252 (b # bs) =
     (case cp1252_char b of
        None \<Rightarrow> Inl UnicodeDecodeError
      | Some c \<Rightarrow>
          (case decode_cp1252 bs of Inl e \<Rightarrow> Inl e | Inr s \<Rightarrow> Inr (c # s)))"

text \<open>
  \<open>bytes.decode('utf-8')\<close>, strict: the well-formed byte sequences of the Unicode
  standard, anything else raises \<open>UnicodeDecodeError\<close>. \<open>utf8_step b bs\<close> decodes
  the character that starts with \<open>b\<close> and gives its code point with the number of
  continuation bytes it took from \<open>bs\<close>.
\<close>

definition is_cont :: "byte \<Rightarrow> bool" where
  "is_cont b \<longleftrightarrow> 0x80 \<le> unat b \<and> unat b \<le> 0xBF"

definition cont_bits :: "byte \<Rightarrow> nat" where
  "cont_bits b = unat b - 0x80"

definition utf8_step :: "byte \<Rightarrow> byte list \<Rightarrow> (nat \<times> nat) option" where
  "utf8_step b bs =
     (let c = unat b in
      if c < 0x80 then Some (c, 0)
      else if 0xC2 \<le> c \<and> c \<le> 0xDF then
        (case bs of
           b1 # _ \<Rightarrow>
             if is_cont b1 then Some ((c - 0xC0) * 64 + cont_bits b1, 1) else None
         | _ \<Rightarrow> None)
      else if 0xE0 \<le> c \<and> c \<le> 0xEF then
        (case bs of
           b1 # b2 # _ \<Rightarrow>
             if (if c = 0xE0 then 0xA0 else 0x80) \<le> unat b1
                \<and> unat b1 \<le> (if c = 0xED then 0x9F else 0xBF) \<and> is_cont b2
             then Some (((c - 0xE0) * 64 + cont_bits b1) * 64 + cont_bits b2, 2)
             else None
         | _ \<Rightarrow> None)
      else if 0xF0 \<le> c \<and> c \<le> 0xF4 then
        (case bs of
           b1 # b2 # b3 # _ \<Rightarrow>
             if (if c = 0xF0 then 0x90 else 0x80) \<le> unat b1
                \<and> unat b1 \<le> (if c = 0xF4 then 0x8F else 0xBF)
                \<and> is_cont b2 \<and> is_cont b3
             then Some ((((c - 0xF0) * 64 + cont_bits b1) * 64 + cont_bits b2) * 64
                        + cont_bits b3, 3)
             else None
         | _ \<Rightarrow> None)
      else None)"

fun decode_utf8 :: "byte list \<Rightarrow> error + pystr" where
  "decode_utf8 [] = Inr []"
| "decode_utf8 (b # bs) =
     (case utf8_step b bs of
        None \<Rightarrow> Inl UnicodeDecodeError
      | Some (c, k) \<Rightarrow>
          (case decode_utf8 (drop k bs) of Inl e \<Rightarrow> Inl e | Inr s \<Rightarrow> Inr (c # s)))"

section \<open>Strings\<close>

text \<open>Literals: the code points and the bytes of an ASCII string.\<close>

definition str_of :: "string \<Rightarrow> pystr" where
  "str_of s = map of_char s"

definition bytes_of :: "string \<Rightarrow> byte list" where
  "bytes_of s = map (\<lambda>c. word_of_nat (of_char c)) s"

text \<open>
  \<open>text.split(sep)\<close> for a one-character separator: the pieces between the
  separators, in order; one piece more than there are separators, so the empty string
  gives one empty piece.
\<close>

fun split_on :: "'a \<Rightarrow> 'a list \<Rightarrow> 'a list list" where
  "split_on sep [] = [[]]"
| "split_on sep (c # cs) =
     (let r = split_on sep cs in
      if c = sep then [] # r else (c # hd r) # tl r)"

text \<open>\<open>'=' in part\<close>, and the two halves of \<open>part.split('=', 1)\<close> when it holds.\<close>

definition has_eq :: "pystr \<Rightarrow> bool" where
  "has_eq part \<longleftrightarrow> 61 \<in> set part"

definition key_of :: "pystr \<Rightarrow> pystr" where
  "key_of part = takeWhile (\<lambda>c. c \<noteq> 61) part"

definition value_of :: "pystr \<Rightarrow> pystr" where
  "value_of part = tl (dropWhile (\<lambda>c. c \<noteq> 61) part)"

section \<open>Property text\<close>

text \<open>
  \<^verbatim>\<open>
  def parse_properties(data):
      props = {}
      try:
          text = data.decode('windows-1252')
          for part in text.split('|'):
              if '=' in part:
                  key, value = part.split('=', 1)
                  props[key] = value
      except Exception:
          pass
      return props
  \<close>
  A Python dictionary keeps its keys in the order of their first insertion, and an
  assignment to a key that is present replaces the value in place: an association list
  under \<open>AList.update\<close>. Only the decoding can raise, and it runs before the first
  assignment, so the handler returns the empty dictionary.
\<close>

definition store_part :: "pystr \<Rightarrow> (pystr \<times> pystr) list \<Rightarrow> (pystr \<times> pystr) list" where
  "store_part part props =
     (if has_eq part then AList.update (key_of part) (value_of part) props else props)"

definition parse_text :: "pystr \<Rightarrow> (pystr \<times> pystr) list" where
  "parse_text text = fold store_part (split_on 124 text) []"

definition parse_properties :: "byte list \<Rightarrow> (pystr \<times> pystr) list" where
  "parse_properties data =
     (case decode_cp1252 data of Inl e \<Rightarrow> [] | Inr text \<Rightarrow> parse_text text)"

text \<open>
  \<^verbatim>\<open>
  def read_string_from_block(block_data):
      if len(block_data) < 1:
          return ""
      str_len = block_data[0]
      if str_len + 1 > len(block_data):
          return ""
      try:
          return block_data[1:1 + str_len].decode("windows-1252")
      except Exception:
          return ""
  \<close>
\<close>

definition read_string_from_block :: "byte list \<Rightarrow> pystr" where
  "read_string_from_block block_data =
     (if length block_data < 1 then []
      else let str_len = unat (block_data ! 0) in
        if str_len + 1 > length block_data then []
        else (case decode_cp1252 (slice block_data 1 (1 + str_len)) of
                Inl e \<Rightarrow> []
              | Inr s \<Rightarrow> s))"

text \<open>
  The value the specification gives a key: that of the last piece of the text that has
  an \<open>=\<close> and this key before its first \<open>=\<close>; pieces without \<open>=\<close> do not count.
\<close>

definition last_value :: "pystr \<Rightarrow> pystr \<Rightarrow> pystr option" where
  "last_value text k =
     (case filter (\<lambda>p. has_eq p \<and> key_of p = k) (split_on 124 text) of
        [] \<Rightarrow> None
      | q # qs \<Rightarrow> Some (value_of (last (q # qs))))"

section \<open>SchLib: binary pin records\<close>

text \<open>
  The fields of the dictionary \<open>parse_binary_pin\<close> returns. \<open>RECORD\<close> is stored by the
  source as the decimal text of the integer kept here.
\<close>

record pin =
  RECORD :: int
  OwnerPartId :: int
  OwnerPartDisplayMode :: nat
  Symbol_InnerEdge :: nat
  Symbol_OuterEdge :: nat
  Symbol_Inside :: nat
  Symbol_Outside :: nat
  Description :: pystr
  Electrical_Type :: nat
  Rotated :: bool
  Flipped :: bool
  Hide :: bool
  Show_Name :: bool
  Show_Designator :: bool
  Length :: nat
  Location_X :: int
  Location_Y :: int
  Color :: int
  Name :: pystr
  Designator :: pystr

text \<open>
  \<open>reader.read(n)\<close> on a \<open>BytesIO\<close>: the next \<open>n\<close> bytes, or as many as are left,
  and the reader moved past them. The state of the reader is the bytes not yet read.
  Reading past the end is not an error: it returns fewer bytes, in the end none.
\<close>

definition reader_read :: "nat \<Rightarrow> byte list \<Rightarrow> byte list \<times> byte list" where
  "reader_read n r = (take n r, drop n r)"

text \<open>
  \<^verbatim>\<open>
  def parse_binary_pin(data):
      props = {}
      reader = BytesIO(data)
      def read_i32():  return int.from_bytes(reader.read(4), 'little', signed=True)
      def read_i16(signed=False):
                       return int.from_bytes(reader.read(2), 'little', signed=signed)
      def read_i8():   return int.from_bytes(reader.read(1), 'little')
      props['RECORD'] = str(read_i32())
      reader.read(1)
      props['OwnerPartId'] = read_i16(signed=True)
      props['OwnerPartDisplayMode'] = read_i8()
      props['Symbol_InnerEdge'] = read_i8()
      props['Symbol_OuterEdge'] = read_i8()
      props['Symbol_Inside'] = read_i8()
      props['Symbol_Outside'] = read_i8()
      desc_len = read_i8()
      reader.read(1)
      props['Description'] = reader.read(desc_len).decode('utf-8') if desc_len else ''
      props['Electrical_Type'] = read_i8()
      flags = read_i8()
      props['Rotated'] = bool(flags & 0x01)
      props['Flipped'] = bool(flags & 0x02)
      props['Hide'] = bool(flags & 0x04)
      props['Show_Name'] = bool(flags & 0x08)
      props['Show_Designator'] = bool(flags & 0x10)
      props['Length'] = read_i16()
      props['Location.X'] = read_i16(signed=True)
      props['Location.Y'] = read_i16(signed=True)
      props['Color'] = read_i32()
      name_len = read_i8()
      props['Name'] = reader.read(name_len).decode('utf-8') if name_len else ''
      designator_len = read_i8()
      props['Designator'] = reader.read(designator_len).decode('utf-8') if designator_len else ''
      return props
  \<close>
  The only statements that can raise are the three \<open>decode('utf-8')\<close>.
\<close>

definition read_text :: "nat \<Rightarrow> byte list \<Rightarrow> (error + pystr) \<times> byte list" where
  "read_text n r =
     (if n \<noteq> 0 then (decode_utf8 (fst (reader_read n r)), snd (reader_read n r))
      else (Inr [], r))"

definition parse_binary_pin :: "byte list \<Rightarrow> error + pin" where
  "parse_binary_pin data =
     (let (b_record, r) = reader_read 4 data;
          (b_skip1, r) = reader_read 1 r;
          (b_owner, r) = reader_read 2 r;
          (b_mode, r) = reader_read 1 r;
          (b_inner, r) = reader_read 1 r;
          (b_outer, r) = reader_read 1 r;
          (b_inside, r) = reader_read 1 r;
          (b_outside, r) = reader_read 1 r;
          (b_desc_len, r) = reader_read 1 r;
          (b_skip2, r) = reader_read 1 r;
          (description, r) = read_text (le_nat b_desc_len) r
      in case description of
        Inl e \<Rightarrow> Inl e
      | Inr description \<Rightarrow>
         (let (b_electrical, r) = reader_read 1 r;
              (b_flags, r) = reader_read 1 r;
              flags = le_nat b_flags;
              (b_length, r) = reader_read 2 r;
              (b_x, r) = reader_read 2 r;
              (b_y, r) = reader_read 2 r;
              (b_color, r) = reader_read 4 r;
              (b_name_len, r) = reader_read 1 r;
              (name, r) = read_text (le_nat b_name_len) r
          in case name of
            Inl e \<Rightarrow> Inl e
          | Inr name \<Rightarrow>
             (let (b_designator_len, r) = reader_read 1 r;
                  (designator, r) = read_text (le_nat b_designator_len) r
              in case designator of
                Inl e \<Rightarrow> Inl e
              | Inr designator \<Rightarrow>
                  Inr \<lparr> RECORD = le_int_signed b_record,
                        OwnerPartId = le_int_signed b_owner,
                        OwnerPartDisplayMode = le_nat b_mode,
                        Symbol_InnerEdge = le_nat b_inner,
                        Symbol_OuterEdge = le_nat b_outer,
                        Symbol_Inside = le_nat b_inside,
                        Symbol_Outside = le_nat b_outside,
                        Description = description,
                        Electrical_Type = le_nat b_electrical,
                        Rotated = (flags AND 0x01 \<noteq> 0),
                        Flipped = (flags AND 0x02 \<noteq> 0),
                        Hide = (flags AND 0x04 \<noteq> 0),
                        Show_Name = (flags AND 0x08 \<noteq> 0),
                        Show_Designator = (flags AND 0x10 \<noteq> 0),
                        Length = le_nat b_length,
                        Location_X = le_int_signed b_x,
                        Location_Y = le_int_signed b_y,
                        Color = le_int_signed b_color,
                        Name = name,
                        Designator = designator \<rparr>)))"




section \<open>SchLib: the record loop of a component\<close>

text \<open>
  What the loop keeps of one record (\<open>props\<close>): the property map of a text record, the
  pin of a binary record, or, for any other record type, the type with the first 50 bytes
  of the payload (the source keeps their hexadecimal text).
\<close>

datatype sch_record =
    TextRecord "(pystr \<times> pystr) list"
  | BinaryPinRecord pin
  | UnknownRecord nat "byte list"

definition decode_record :: "nat \<Rightarrow> byte list \<Rightarrow> error + sch_record" where
  "decode_record record_type record_data =
     (if record_type = 0 then Inr (TextRecord (parse_properties record_data))
      else if record_type = 1 then
        (case parse_binary_pin record_data of
           Inl e \<Rightarrow> Inl e
         | Inr props \<Rightarrow> Inr (BinaryPinRecord props))
      else Inr (UnknownRecord record_type (slice record_data 0 50)))"

text \<open>
  How the loop over one component's stream ends: at the end marker (a record length of
  0), by its condition when fewer than five bytes remain, or in the handler around the
  whole loop (\<open>except Exception\<close>, which prints the error and goes on to the next
  component) when decoding a record raised.
\<close>

datatype sch_outcome = EndMarker | Exhausted | SchRaised error

text \<open>
  \<^verbatim>\<open>
  offset = 0; record_num = 0; records_by_type = {}
  while offset < len(data) - 4:
      record_length = int.from_bytes(data[offset:offset+2], 'little')
      record_type = int.from_bytes(data[offset+2:offset+4], 'big')
      if record_length == 0:
          break
      record_data = data[offset+4:offset+4+record_length]
      if record_type == 0:
          props = parse_properties(record_data)
      elif record_type == 1:
          props = parse_binary_pin(record_data)
      else:
          props = {'_raw': record_data[:50].hex()}
      records_by_type[rec_id].append(props)
      offset += 4 + record_length
      record_num += 1
  \<close>
  The records are kept in the order in which they were decoded; \<open>records_by_type\<close>
  groups the same records for the summary that is printed after the loop.
\<close>

function sch_loop ::
  "byte list \<Rightarrow> nat \<Rightarrow> nat \<Rightarrow> sch_record list \<Rightarrow> sch_outcome \<times> nat \<times> nat \<times> sch_record list"
where
  "sch_loop data offset record_num records =
     (if int offset < int (length data) - 4 then
        let record_length = le_nat (slice data offset (offset + 2));
            record_type = be_nat (slice data (offset + 2) (offset + 4))
        in if record_length = 0 then (EndMarker, offset, record_num, records)
           else
             let record_data = slice data (offset + 4) (offset + 4 + record_length)
             in case decode_record record_type record_data of
                  Inl e \<Rightarrow> (SchRaised e, offset, record_num, records)
                | Inr props \<Rightarrow>
                    sch_loop data (offset + 4 + record_length) (record_num + 1)
                      (records @ [props])
      else (Exhausted, offset, record_num, records))"
  by pat_completeness auto
termination
  by (relation "measure (\<lambda>(data, offset, record_num, records). length data - offset)") auto

declare sch_loop.simps [simp del]

definition decode_component :: "byte list \<Rightarrow> sch_outcome \<times> nat \<times> nat \<times> sch_record list" where
  "decode_component data = sch_loop data 0 0 []"

section \<open>Component streams built from records\<close>

text \<open>
  A record as the stream holds it: its length in two little-endian bytes, its type in
  two big-endian bytes, and its payload. A well-formed record has a payload of 1 to
  65535 bytes, a type below 65536, and a payload that its decoder accepts.
\<close>

definition le16 :: "nat \<Rightarrow> byte list" where
  "le16 n = [word_of_nat n, word_of_nat (n div 256)]"

definition be16 :: "nat \<Rightarrow> byte list" where
  "be16 n = [word_of_nat (n div 256), word_of_nat n]"

definition enc_record :: "nat \<times> byte list \<Rightarrow> byte list" where
  "enc_record rp = le16 (length (snd rp)) @ be16 (fst rp) @ snd rp"

definition enc_records :: "(nat \<times> byte list) list \<Rightarrow> byte list" where
  "enc_records rps = concat (map enc_record rps)"

definition wf_record :: "nat \<times> byte list \<Rightarrow> bool" where
  "wf_record rp \<longleftrightarrow>
     0 < length (snd rp) \<and> length (snd rp) < 65536 \<and> fst rp < 65536
     \<and> \<not> isl (decode_record (fst rp) (snd rp))"

definition record_of :: "nat \<times> byte list \<Rightarrow> sch_record" where
  "record_of rp = projr (decode_record (fst rp) (snd rp))"

text \<open>
  Two streams with one binary pin record each, whose description is the one byte
  \<open>b\<close>. In the first the pin record is complete and is followed by the text record
  \<open>A=1\<close> and an end marker. The second is cut inside the description: the pin record
  declares 16 bytes and a description of 2 bytes, and the stream ends after the first
  byte of the description, without an end marker. The pin is what the decoder returns
  when \<open>b\<close> is the ASCII character \<open>c\<close>.
\<close>

definition invalid_pin_stream :: "byte \<Rightarrow> byte list" where
  "invalid_pin_stream b =
     [15, 0, 0, 1,  0, 0, 0, 0, 0, 0, 0, 0, 0, 0, 0, 0,  1, 0, b,
      3, 0, 0, 0,  0x41, 0x3D, 0x31,
      0, 0, 0, 0, 0]"

definition cut_pin_stream :: "byte \<Rightarrow> byte list" where
  "cut_pin_stream b =
     [16, 0, 0, 1,  0, 0, 0, 0, 0, 0, 0, 0, 0, 0, 0, 0,  2, 0, b]"

definition one_char_pin :: "nat \<Rightarrow> pin" where
  "one_char_pin c =
     \<lparr> RECORD = 0, OwnerPartId = 0, OwnerPartDisplayMode = 0,
       Symbol_InnerEdge = 0, Symbol_OuterEdge = 0, Symbol_Inside = 0, Symbol_Outside = 0,
       Description = [c], Electrical_Type = 0,
       Rotated = False, Flipped = False, Hide = False, Show_Name = False,
       Show_Designator = False,
       Length = 0, Location_X = 0, Location_Y = 0, Color = 0,
       Name = [], Designator = [] \<rparr>"

section \<open>PcbLib: the blocks of each primitive\<close>

text \<open>
  The parsers of the primitives return the new offset and print what they decode. The
  model returns, with the offset, the primitive as the blocks that were read and the
  strings and vertices decoded from them. The geometry that the source prints from a
  block (layer, coordinates, sizes, angles) is read from the block at fixed places under
  a test of the block's length; it is a function of the block kept here.
\<close>

datatype vertex = Vertex (v_index: nat) (v_base: nat) (v_x: "64 word") (v_y: "64 word")

datatype primitive =
    Pad pystr "byte list" pystr "byte list" "byte list" "byte list"
  | Track "byte list"
  | Arc "byte list"
  | Text "byte list" "byte list" pystr
  | Region "byte list" "byte list" "vertex list"
  | Fill "byte list"
  | ComponentBody "byte list" "byte list" "byte list"

text \<open>
  \<^verbatim>\<open>
  def parse_pad_blocks_v2(data, offset):
      block0, offset = read_block(data, offset)
      designator = read_string_from_block(block0)
      block1, offset = read_block(data, offset)
      block2, offset = read_block(data, offset)
      block2_str = read_string_from_block(block2)
      block3, offset = read_block(data, offset)
      block4, offset = read_block(data, offset)
      if len(block4) >= 45:
          parse_pad_geometry(block4)
      block5, offset = read_block(data, offset)
      return offset
  \<close>
\<close>

definition parse_pad_blocks_v2 :: "byte list \<Rightarrow> nat \<Rightarrow> primitive \<times> nat" where
  "parse_pad_blocks_v2 data offset =
     (let (block0, offset) = read_block data offset;
          designator = read_string_from_block block0;
          (block1, offset) = read_block data offset;
          (block2, offset) = read_block data offset;
          block2_str = read_string_from_block block2;
          (block3, offset) = read_block data offset;
          (block4, offset) = read_block data offset;
          (block5, offset) = read_block data offset
      in (Pad designator block1 block2_str block3 block4 block5, offset))"

text \<open>\<open>parse_track_blocks\<close>, \<open>parse_arc_blocks\<close> and \<open>parse_fill_blocks\<close> read one block.\<close>

definition parse_track_blocks :: "byte list \<Rightarrow> nat \<Rightarrow> primitive \<times> nat" where
  "parse_track_blocks data offset =
     (let (block, offset) = read_block data offset in (Track block, offset))"

definition parse_arc_blocks :: "byte list \<Rightarrow> nat \<Rightarrow> primitive \<times> nat" where
  "parse_arc_blocks data offset =
     (let (block, offset) = read_block data offset in (Arc block, offset))"

definition parse_fill_blocks :: "byte list \<Rightarrow> nat \<Rightarrow> primitive \<times> nat" where
  "parse_fill_blocks data offset =
     (let (block, offset) = read_block data offset in (Fill block, offset))"

text \<open>
  \<^verbatim>\<open>
  def parse_text_blocks(data, offset):
      block0, offset = read_block(data, offset)
      ...
      block1, offset = read_block(data, offset)
      content = read_string_from_block(block1)
      return offset
  \<close>
\<close>

definition parse_text_blocks :: "byte list \<Rightarrow> nat \<Rightarrow> primitive \<times> nat" where
  "parse_text_blocks data offset =
     (let (block0, offset) = read_block data offset;
          (block1, offset) = read_block data offset;
          content = read_string_from_block block1
      in (Text block0 block1 content, offset))"

text \<open>
  \<open>int(x)\<close> on a double raises \<open>ValueError\<close> when \<open>x\<close> is a NaN and \<open>OverflowError\<close>
  when it is an infinity: the bit patterns whose eleven exponent bits are all 1, with a
  non-zero fraction for a NaN. On every other double it returns.
\<close>

definition int_of_double_error :: "64 word \<Rightarrow> error option" where
  "int_of_double_error w =
     (if drop_bit 52 w AND 0x7FF = 0x7FF
      then (if take_bit 52 w = 0 then Some OverflowError else Some ValueError)
      else None)"

text \<open>
  \<^verbatim>\<open>
  def parse_region_blocks(data, offset):
      block0, offset = read_block(data, offset)
      block1, offset = read_block(data, offset)
      if len(block1) >= 4:
          vertex_count = struct.unpack_from("<I", block1, 0)[0]
          for i in range(vertex_count):
              base = 4 + i * 16
              if base + 16 <= len(block1):
                  x = struct.unpack_from("<d", block1, base)[0]
                  y = struct.unpack_from("<d", block1, base + 8)[0]
                  print(f"Vertex[{i}]: ({to_mm(int(x)):.4f}, {to_mm(int(y)):.4f}) mm"
                        f"  [raw: x={x}, y={y}]")
      return offset
  \<close>
  \<open>region_loop block1 is\<close> is the \<open>for\<close> loop over the indices \<open>is\<close>; a vertex of
  the result is one line printed. Nothing in \<open>parse_footprint_data\<close> or its callers
  catches what \<open>int(x)\<close> raises.
\<close>

fun region_loop :: "byte list \<Rightarrow> nat list \<Rightarrow> error + vertex list" where
  "region_loop block1 [] = Inr []"
| "region_loop block1 (i # is) =
     (let base = 4 + i * 16 in
      if base + 16 \<le> length block1 then
        let x = unpack_d block1 base;
            y = unpack_d block1 (base + 8)
        in case int_of_double_error x of
             Some e \<Rightarrow> Inl e
           | None \<Rightarrow>
              (case int_of_double_error y of
                 Some e \<Rightarrow> Inl e
               | None \<Rightarrow>
                  (case region_loop block1 is of
                     Inl e \<Rightarrow> Inl e
                   | Inr vs \<Rightarrow> Inr (Vertex i base x y # vs)))
      else region_loop block1 is)"

definition region_vertices :: "byte list \<Rightarrow> error + vertex list" where
  "region_vertices block1 =
     (if length block1 \<ge> 4 then region_loop block1 [0 ..< unpack_I block1 0]
      else Inr [])"

definition parse_region_blocks :: "byte list \<Rightarrow> nat \<Rightarrow> error + primitive \<times> nat" where
  "parse_region_blocks data offset =
     (let (block0, offset) = read_block data offset;
          (block1, offset) = read_block data offset
      in case region_vertices block1 of
           Inl e \<Rightarrow> Inl e
         | Inr vs \<Rightarrow> Inr (Region block0 block1 vs, offset))"

text \<open>
  \<^verbatim>\<open>
  def parse_component_body_blocks(data, offset):
      for i in range(3):
          block, offset = read_block(data, offset)
          ...
      return offset
  \<close>
  The parameters printed from block 0 are decoded as \<open>latin1\<close>, which maps every byte,
  inside a handler of their own.
\<close>

definition parse_component_body_blocks :: "byte list \<Rightarrow> nat \<Rightarrow> primitive \<times> nat" where
  "parse_component_body_blocks data offset =
     (let (block0, offset) = read_block data offset;
          (block1, offset) = read_block data offset;
          (block2, offset) = read_block data offset
      in (ComponentBody block0 block1 block2, offset))"

section \<open>PcbLib: the primitives of a footprint\<close>

text \<open>The names the loop prints for the record types it knows of.\<close>

definition record_names :: "byte \<Rightarrow> string option" where
  "record_names record_type =
     (if record_type = 0x01 then Some ''Arc''
      else if record_type = 0x02 then Some ''Pad''
      else if record_type = 0x03 then Some ''Via''
      else if record_type = 0x04 then Some ''Track''
      else if record_type = 0x05 then Some ''Text''
      else if record_type = 0x06 then Some ''Fill''
      else if record_type = 0x0B then Some ''Region''
      else if record_type = 0x0C then Some ''ComponentBody''
      else None)"

text \<open>
  The chain of tests that picks the parser of a record type, in the source's order;
  \<open>None\<close> is its last branch, which has no parser and leaves the loop.
\<close>

definition parse_blocks :: "byte \<Rightarrow> byte list \<Rightarrow> nat \<Rightarrow> (error + primitive \<times> nat) option" where
  "parse_blocks record_type data offset =
     (if record_type = 0x02 then Some (Inr (parse_pad_blocks_v2 data offset))
      else if record_type = 0x04 then Some (Inr (parse_track_blocks data offset))
      else if record_type = 0x01 then Some (Inr (parse_arc_blocks data offset))
      else if record_type = 0x05 then Some (Inr (parse_text_blocks data offset))
      else if record_type = 0x0B then Some (parse_region_blocks data offset)
      else if record_type = 0x06 then Some (Inr (parse_fill_blocks data offset))
      else if record_type = 0x0C then Some (Inr (parse_component_body_blocks data offset))
      else None)"

lemma read_block_mono: "offset \<le> snd (read_block data offset)"
  by (simp add: read_block_def Let_def)

lemma read_block_mono': "read_block data offset = (b, offset') \<Longrightarrow> offset \<le> offset'"
  using read_block_mono [of offset data] by simp

lemma parse_blocks_mono:
  assumes "parse_blocks record_type data offset = Some (Inr (p, offset'))"
  shows "offset \<le> offset'"
  using assms
  by (auto simp: parse_blocks_def parse_pad_blocks_v2_def parse_track_blocks_def
      parse_arc_blocks_def parse_text_blocks_def parse_region_blocks_def
      parse_fill_blocks_def parse_component_body_blocks_def Let_def
      split: if_splits prod.splits sum.splits
      dest!: read_block_mono')

text \<open>
  How the loop over the primitives ends: at a record type of 0 (\<open>stream complete\<close>), at
  a record type without a parser, by its condition at the end of the buffer, or by an
  exception, which nothing catches.
\<close>

datatype fp_outcome = Done | Aborted byte | BufferEnd | FpRaised error

text \<open>
  \<^verbatim>\<open>
  prim_num = 0
  while offset < len(data):
      record_type = data[offset]
      if record_type == 0:
          break
      rname = record_names.get(record_type, f"Unknown(0x{record_type:02x})")
      offset += 1
      if record_type == 0x02:
          offset = parse_pad_blocks_v2(data, offset)
      elif record_type == 0x04:
          offset = parse_track_blocks(data, offset)
      elif record_type == 0x01:
          offset = parse_arc_blocks(data, offset)
      elif record_type == 0x05:
          offset = parse_text_blocks(data, offset)
      elif record_type == 0x0B:
          offset = parse_region_blocks(data, offset)
      elif record_type == 0x06:
          offset = parse_fill_blocks(data, offset)
      elif record_type == 0x0C:
          offset = parse_component_body_blocks(data, offset)
      else:
          break
      prim_num += 1
  \<close>
  The result is the way the loop ended, the final offset, \<open>prim_num\<close> and the
  primitives in the order in which they were decoded.
\<close>

function fp_loop ::
  "byte list \<Rightarrow> nat \<Rightarrow> nat \<Rightarrow> primitive list \<Rightarrow> fp_outcome \<times> nat \<times> nat \<times> primitive list"
where
  "fp_loop data offset prim_num prims =
     (if offset < length data then
        let record_type = data ! offset
        in if record_type = 0 then (Done, offset, prim_num, prims)
           else
             (case parse_blocks record_type data (offset + 1) of
                None \<Rightarrow> (Aborted record_type, offset + 1, prim_num, prims)
              | Some (Inl e) \<Rightarrow> (FpRaised e, offset + 1, prim_num, prims)
              | Some (Inr (p, offset')) \<Rightarrow>
                  fp_loop data offset' (prim_num + 1) (prims @ [p]))
      else (BufferEnd, offset, prim_num, prims))"
  by pat_completeness auto
termination
proof (relation "measure (\<lambda>(data, offset, prim_num, prims). length data - offset)")
  show "wf (measure (\<lambda>(data, offset, prim_num, prims). length data - offset))"
    by simp
next
  fix data :: "byte list" and offset prim_num :: nat and prims :: "primitive list"
    and record_type x2 y xa ya
  assume "offset < length data"
    and "parse_blocks record_type data (offset + 1) = Some x2"
    and "x2 = Inr y" and "(xa, ya) = y"
  then have "offset + 1 \<le> ya"
    using parse_blocks_mono [of record_type data "offset + 1" xa ya] by simp
  with \<open>offset < length data\<close>
  show "((data, ya, prim_num + 1, prims @ [xa]), data, offset, prim_num, prims)
        \<in> measure (\<lambda>(data, offset, prim_num, prims). length data - offset)"
    by simp
qed

declare fp_loop.simps [simp del]

text \<open>
  \<^verbatim>\<open>
  def parse_footprint_data(name, data):
      if len(data) < 5:
          return
      block_len = struct.unpack_from("<I", data, 0)[0]
      if block_len + 4 > len(data):
          return
      name_len = data[4]
      comp_name = data[5:5 + name_len].decode("ascii", errors="replace")
      offset = 4 + block_len
      if offset >= len(data):
          return
      ... the loop ...
  \<close>
  \<open>decode("ascii", errors="replace")\<close> puts U+FFFD for every byte from \<open>0x80\<close>.
\<close>

datatype fp_report =
    DataTooShort
  | InvalidBlockLength
  | NoPrimitives pystr
  | Parsed pystr fp_outcome nat nat "primitive list"

definition decode_ascii_replace :: "byte list \<Rightarrow> pystr" where
  "decode_ascii_replace bs = map (\<lambda>b. if unat b < 0x80 then unat b else 0xFFFD) bs"

definition parse_footprint_data :: "byte list \<Rightarrow> fp_report" where
  "parse_footprint_data data =
     (if length data < 5 then DataTooShort
      else let block_len = unpack_I data 0 in
        if block_len + 4 > length data then InvalidBlockLength
        else let name_len = unat (data ! 4);
                 comp_name = decode_ascii_replace (slice data 5 (5 + name_len));
                 offset = 4 + block_len
             in if offset \<ge> length data then NoPrimitives comp_name
                else (case fp_loop data offset 0 [] of
                        (outcome, offset', prim_num, prims) \<Rightarrow>
                          Parsed comp_name outcome offset' prim_num prims))"

section \<open>Well-formed footprint buffers\<close>

text \<open>
  The name of the kind of a decoded primitive, to compare with \<open>record_names\<close>.
\<close>

fun prim_name :: "primitive \<Rightarrow> string" where
  "prim_name (Pad designator block1 block2_str block3 block4 block5) = ''Pad''"
| "prim_name (Track block) = ''Track''"
| "prim_name (Arc block) = ''Arc''"
| "prim_name (Text block0 block1 content) = ''Text''"
| "prim_name (Region block0 block1 vs) = ''Region''"
| "prim_name (Fill block) = ''Fill''"
| "prim_name (ComponentBody block0 block1 block2) = ''ComponentBody''"

text \<open>
  The buffers of the claims about well-formed input are built here, as a test would
  build them: a block is its length in four little-endian bytes and its bytes; a
  primitive is its record type and the blocks of its kind, one after the other.
\<close>

definition le32 :: "nat \<Rightarrow> byte list" where
  "le32 n = [word_of_nat n, word_of_nat (n div 256), word_of_nat (n div 65536),
             word_of_nat (n div 16777216)]"

definition enc_block :: "byte list \<Rightarrow> byte list" where
  "enc_block b = le32 (length b) @ b"

definition enc_blocks :: "byte list list \<Rightarrow> byte list" where
  "enc_blocks bs = concat (map enc_block bs)"

definition enc_prim :: "byte \<times> byte list list \<Rightarrow> byte list" where
  "enc_prim pb = fst pb # enc_blocks (snd pb)"

definition enc_prims :: "(byte \<times> byte list list) list \<Rightarrow> byte list" where
  "enc_prims pbs = concat (map enc_prim pbs)"

text \<open>The number of blocks that the parser of a record type reads.\<close>

definition block_count :: "byte \<Rightarrow> nat option" where
  "block_count record_type =
     (if record_type = 0x02 then Some 6
      else if record_type = 0x04 then Some 1
      else if record_type = 0x01 then Some 1
      else if record_type = 0x05 then Some 2
      else if record_type = 0x0B then Some 2
      else if record_type = 0x06 then Some 1
      else if record_type = 0x0C then Some 3
      else None)"

text \<open>
  A well-formed primitive: a record type that has a parser, as many blocks as the
  parser reads, each within the ceiling of \<open>read_block\<close>, and for a region only
  coordinates that \<open>int\<close> accepts.
\<close>

definition wf_prim :: "byte \<times> byte list list \<Rightarrow> bool" where
  "wf_prim pb \<longleftrightarrow>
     block_count (fst pb) = Some (length (snd pb))
     \<and> list_all (\<lambda>b. length b \<le> 100000) (snd pb)
     \<and> (fst pb = 0x0B \<longrightarrow> \<not> isl (region_vertices (snd pb ! 1)))"

text \<open>The primitive that the blocks of a well-formed primitive stand for.\<close>

definition prim_of :: "byte \<times> byte list list \<Rightarrow> primitive" where
  "prim_of pb =
     (let record_type = fst pb; bs = snd pb in
      if record_type = 0x02 then
        Pad (read_string_from_block (bs ! 0)) (bs ! 1) (read_string_from_block (bs ! 2))
            (bs ! 3) (bs ! 4) (bs ! 5)
      else if record_type = 0x04 then Track (bs ! 0)
      else if record_type = 0x01 then Arc (bs ! 0)
      else if record_type = 0x05 then Text (bs ! 0) (bs ! 1) (read_string_from_block (bs ! 1))
      else if record_type = 0x0B then
        Region (bs ! 0) (bs ! 1)
          (case region_vertices (bs ! 1) of Inl e \<Rightarrow> [] | Inr vs \<Rightarrow> vs)
      else if record_type = 0x06 then Fill (bs ! 0)
      else ComponentBody (bs ! 0) (bs ! 1) (bs ! 2))"

text \<open>\<open>read_seq data offset k\<close>: \<open>k\<close> calls of \<open>read_block\<close>, each at the offset the
  one before returned.\<close>

fun read_seq :: "byte list \<Rightarrow> nat \<Rightarrow> nat \<Rightarrow> byte list list \<times> nat" where
  "read_seq data offset 0 = ([], offset)"
| "read_seq data offset (Suc k) =
     (let (b, offset1) = read_block data offset;
          (bs, offset2) = read_seq data offset1 k
      in (b # bs, offset2))"

text \<open>The vertex that the region loop prints for index \<open>i\<close>.\<close>

definition vertex_at :: "byte list \<Rightarrow> nat \<Rightarrow> vertex" where
  "vertex_at block1 i =
     Vertex i (4 + i * 16) (unpack_d block1 (4 + i * 16)) (unpack_d block1 (4 + i * 16 + 8))"

definition vertex_ok :: "vertex \<Rightarrow> bool" where
  "vertex_ok v \<longleftrightarrow> int_of_double_error (v_x v) = None \<and> int_of_double_error (v_y v) = None"

text \<open>A vertices block with a count of 1 and the vertex (100.0, 0.0).\<close>

definition one_vertex_block :: "byte list" where
  "one_vertex_block =
     [1, 0, 0, 0,
      0, 0, 0, 0, 0, 0, 0x59, 0x40,  0, 0, 0, 0, 0, 0, 0, 0]"

text \<open>
  A vertices block of 52 bytes: a count of 3, and three vertices of which the first has
  a NaN (\<open>7ff8000000000000\<close>) for its x coordinate.
\<close>

definition nan_region_block :: "byte list" where
  "nan_region_block =
     [3, 0, 0, 0,
      0, 0, 0, 0, 0, 0, 0xF8, 0x7F,  0, 0, 0, 0, 0, 0, 0, 0,
      0, 0, 0, 0, 0, 0, 0, 0,  0, 0, 0, 0, 0, 0, 0, 0,
      0, 0, 0, 0, 0, 0, 0, 0,  0, 0, 0, 0, 0, 0, 0, 0]"

section \<open>Properties of blocks\<close>

lemma length_slice: "length (slice data a b) = min (b - a) (length data - a)"
  by (simp add: slice_def)

lemma read_block_bound: "snd (read_block data offset) \<le> max offset (length data)"
  by (simp add: read_block_def Let_def)

text \<open>
  C2 (as amended). When the declared length \<open>L\<close> is within the sanity ceiling of 100000
  and \<open>offset + 4 + L\<close> does not exceed the buffer, \<open>read_block\<close> returns exactly the
  \<open>L\<close> bytes that follow the four-byte little-endian length and advances the offset
  by \<open>4 + L\<close>.
\<close>

theorem read_block_ok:
  assumes "L = unpack_I data offset"
    and "offset + 4 + L \<le> length data"
    and "L \<le> 100000"
  shows "read_block data offset = (take L (drop (offset + 4) data), offset + 4 + L)
         \<and> length (fst (read_block data offset)) = L"
  using assms by (simp add: read_block_def Let_def slice_def)

theorem read_block_ok_witness:
  "(3::nat) = unpack_I [7, 3, 0, 0, 0, 10, 20, 30, 9] 1
   \<and> 1 + 4 + (3::nat) \<le> length [7, 3, 0, 0, 0, 10, 20, 30, 9 :: byte]
   \<and> (3::nat) \<le> 100000
   \<and> read_block [7, 3, 0, 0, 0, 10, 20, 30, 9] 1 = ([10, 20, 30], 8)"
  using read_block_ok [of 3 "[7, 3, 0, 0, 0, 10, 20, 30, 9]" 1]
  by (simp add: unpack_I_def slice_def)

text \<open>
  C2 as stated fails above the ceiling: a buffer that really holds the 100001 bytes its
  length field declares is read as an empty block, with the offset unchanged.
\<close>

theorem read_block_ceiling_counterexample:
  "unpack_I ([0xA1, 0x86, 0x01, 0x00] @ replicate 100001 0) 0 = 100001
   \<and> 0 + 4 + 100001 \<le> length ([0xA1, 0x86, 0x01, 0x00 :: byte] @ replicate 100001 0)
   \<and> read_block ([0xA1, 0x86, 0x01, 0x00] @ replicate 100001 0) 0 = ([], 0)"
  by (simp add: read_block_def unpack_I_def slice_def)

lemma le_nat_replicate_zero: "le_nat (replicate n 0) = 0"
  by (induction n) simp_all

text \<open>
  C9. Whenever \<open>read_block\<close> fails (fewer than four bytes at the offset, a declared
  length above 100000, or a declared length that passes the end of the buffer) it
  returns the empty block and the offset it was given. The block is the one every
  genuine block of length zero gives, and for an offset of at least 4 (the decoders
  never call \<open>read_block\<close> below 5) the whole returned pair is the one that the
  successful read of a block of length zero ending at that offset returns: the value
  returned does not tell the failure from such a read.
\<close>

theorem read_block_failure:
  assumes "read_block_fails data offset"
  shows "read_block data offset = ([], offset)
     \<and> (\<not> read_block_fails data' offset' \<and> unpack_I data' offset' = 0 \<longrightarrow>
          fst (read_block data' offset') = fst (read_block data offset))
     \<and> (4 \<le> offset \<longrightarrow>
          \<not> read_block_fails (zero_block_before offset) (offset - 4)
          \<and> unpack_I (zero_block_before offset) (offset - 4) = 0
          \<and> read_block (zero_block_before offset) (offset - 4) = read_block data offset)"
proof -
  have f: "read_block data offset = ([], offset)"
    using assms by (auto simp: read_block_def read_block_fails_def Let_def)
  have z: "fst (read_block data' offset') = []"
    if "\<not> read_block_fails data' offset' \<and> unpack_I data' offset' = 0"
    using that by (auto simp: read_block_def read_block_fails_def Let_def slice_def)
  have g: "\<not> read_block_fails (zero_block_before offset) (offset - 4)
          \<and> unpack_I (zero_block_before offset) (offset - 4) = 0
          \<and> read_block (zero_block_before offset) (offset - 4) = ([], offset)"
    if "4 \<le> offset"
  proof -
    have u: "unpack_I (zero_block_before offset) (offset - 4) = 0"
      by (simp add: unpack_I_def slice_def zero_block_before_def le_nat_replicate_zero)
    from that have n: "\<not> read_block_fails (zero_block_before offset) (offset - 4)"
      by (simp add: read_block_fails_def u) (simp add: zero_block_before_def)
    from that have r: "read_block (zero_block_before offset) (offset - 4) = ([], offset)"
      by (simp add: read_block_def u slice_def) (simp add: zero_block_before_def)
    from u n r show ?thesis by simp
  qed
  from f z g show ?thesis by simp
qed

theorem read_block_failure_witness:
  "read_block_fails [0, 0, 0, 0] 4
   \<and> read_block [0, 0, 0, 0] 4 = ([], 4)
   \<and> zero_block_before 4 = [0, 0, 0, 0]
   \<and> \<not> read_block_fails (zero_block_before 4) 0
   \<and> unpack_I (zero_block_before 4) 0 = 0
   \<and> read_block (zero_block_before 4) 0 = read_block [0, 0, 0, 0] 4"
proof -
  have h: "read_block_fails [0, 0, 0, 0] 4"
    by (simp add: read_block_fails_def)
  have z: "zero_block_before 4 = [0, 0, 0, 0]"
    by (simp add: zero_block_before_def eval_nat_numeral)
  from read_block_failure [OF h] z h show ?thesis by simp
qed

section \<open>Properties of text decoding and property text\<close>

lemma cp1252_char_None: "cp1252_char b = None \<longleftrightarrow> b \<in> cp1252_undefined"
  by (simp add: cp1252_char_def)

lemma decode_cp1252_eq:
  "decode_cp1252 bs =
     (if \<exists>b\<in>set bs. b \<in> cp1252_undefined then Inl UnicodeDecodeError
      else Inr (map (\<lambda>b. the (cp1252_char b)) bs))"
proof (induction bs)
  case Nil
  then show ?case by simp
next
  case (Cons b bs)
  show ?case
  proof (cases "cp1252_char b")
    case None
    moreover from None have "b \<in> cp1252_undefined"
      using cp1252_char_None [of b] by simp
    ultimately show ?thesis by simp
  next
    case (Some c)
    then have "b \<notin> cp1252_undefined"
      using cp1252_char_None [of b] by simp
    with Some show ?thesis by (simp add: Cons.IH)
  qed
qed

lemma split_on_not_Nil: "split_on sep xs \<noteq> []"
  by (induction xs) (auto simp: Let_def)

lemma split_on_no_sep: "p \<in> set (split_on sep xs) \<Longrightarrow> sep \<notin> set p"
proof (induction xs arbitrary: p)
  case Nil
  then show ?case by simp
next
  case (Cons c cs)
  obtain q qs where r: "split_on sep cs = q # qs"
    using split_on_not_Nil [of sep cs] by (cases "split_on sep cs") auto
  show ?case
  proof (cases "c = sep")
    case True
    with Cons show ?thesis by (auto simp: Let_def)
  next
    case False
    with Cons.prems r have "p = c # q \<or> p \<in> set qs" by (auto simp: Let_def)
    moreover have "sep \<notin> set q" using Cons.IH [of q] r by simp
    moreover have "p \<in> set qs \<Longrightarrow> sep \<notin> set p" using Cons.IH [of p] r by simp
    ultimately show ?thesis using False by auto
  qed
qed

lemma split_first_eq:
  "has_eq part \<Longrightarrow> part = key_of part @ 61 # value_of part \<and> \<not> has_eq (key_of part)"
proof -
  assume h: "has_eq part"
  then have ne: "dropWhile (\<lambda>c. c \<noteq> 61) part \<noteq> []"
    by (simp add: has_eq_def)
  then have "hd (dropWhile (\<lambda>c. c \<noteq> 61) part) = 61"
    using hd_dropWhile [of "\<lambda>c. c \<noteq> 61" part] by simp
  with ne have "dropWhile (\<lambda>c. c \<noteq> 61) part = 61 # value_of part"
    by (cases "dropWhile (\<lambda>c. c \<noteq> 61) part") (auto simp: value_of_def)
  then have "part = key_of part @ 61 # value_of part"
    using takeWhile_dropWhile_id [of "\<lambda>c. c \<noteq> 61" part] by (simp add: key_of_def)
  moreover have "\<not> has_eq (key_of part)"
    by (auto simp: has_eq_def key_of_def dest: set_takeWhileD)
  ultimately show ?thesis by simp
qed

lemma map_of_store_part:
  "map_of (store_part p acc) k =
     (if has_eq p \<and> key_of p = k then Some (value_of p) else map_of acc k)"
  by (simp add: store_part_def update_conv')

lemma map_of_fold_store:
  "map_of (fold store_part ps acc) k =
     (case filter (\<lambda>p. has_eq p \<and> key_of p = k) ps of
        [] \<Rightarrow> map_of acc k
      | q # qs \<Rightarrow> Some (value_of (last (q # qs))))"
proof (induction ps arbitrary: acc)
  case Nil
  then show ?case by simp
next
  case (Cons p ps)
  have "map_of (fold store_part (p # ps) acc) k =
        (case filter (\<lambda>p. has_eq p \<and> key_of p = k) ps of
           [] \<Rightarrow> map_of (store_part p acc) k
         | q # qs \<Rightarrow> Some (value_of (last (q # qs))))"
    by (simp add: Cons.IH)
  then show ?case
    by (simp add: map_of_store_part split: list.splits)
qed

lemma distinct_fold_store:
  "distinct (map fst acc) \<Longrightarrow> distinct (map fst (fold store_part ps acc))"
  by (induction ps arbitrary: acc) (simp_all add: store_part_def distinct_update)

lemma map_of_parse_text: "map_of (parse_text text) k = last_value text k"
  by (simp add: parse_text_def last_value_def map_of_fold_store split: list.splits)

lemmas eval_props = parse_properties_def bytes_of_def str_of_def cp1252_char_def
  cp1252_undefined_def parse_text_def store_part_def has_eq_def key_of_def value_of_def Let_def

text \<open>
  C6. The parser splits the text on \<open>|\<close> and each piece on its first \<open>=\<close>, drops
  the pieces without \<open>=\<close>, and keeps for a key the value of its last piece; every key
  occurs once. \<open>A=1|B=2|C\<close> gives \<open>{A: 1, B: 2}\<close> and \<open>A=1|A=2\<close> gives \<open>{A: 2}\<close>.
\<close>

theorem parse_properties_last_wins:
  "(decode_cp1252 data = Inr text \<longrightarrow>
      map_of (parse_properties data) k = last_value text k
      \<and> distinct (map fst (parse_properties data)))
   \<and> parse_properties (bytes_of ''A=1|B=2|C'')
       = [(str_of ''A'', str_of ''1''), (str_of ''B'', str_of ''2'')]
   \<and> parse_properties (bytes_of ''A=1|A=2'') = [(str_of ''A'', str_of ''2'')]"
proof (intro conjI impI)
  assume d: "decode_cp1252 data = Inr text"
  then show "map_of (parse_properties data) k = last_value text k"
    by (simp add: parse_properties_def map_of_parse_text)
  from d show "distinct (map fst (parse_properties data))"
    by (simp add: parse_properties_def parse_text_def distinct_fold_store)
next
  show "parse_properties (bytes_of ''A=1|B=2|C'')
       = [(str_of ''A'', str_of ''1''), (str_of ''B'', str_of ''2'')]"
    by (simp add: eval_props)
next
  show "parse_properties (bytes_of ''A=1|A=2'') = [(str_of ''A'', str_of ''2'')]"
    by (simp add: eval_props)
qed

theorem parse_properties_last_wins_witness:
  "decode_cp1252 (bytes_of ''K=a|x|K=b'') = Inr (str_of ''K=a|x|K=b'')
   \<and> last_value (str_of ''K=a|x|K=b'') (str_of ''K'') = Some (str_of ''b'')
   \<and> map_of (parse_properties (bytes_of ''K=a|x|K=b'')) (str_of ''K'') = Some (str_of ''b'')"
  using parse_properties_last_wins [of "bytes_of ''K=a|x|K=b''" "str_of ''K=a|x|K=b''" "str_of ''K''"]
  by (simp add: eval_props last_value_def)

text \<open>
  C3 (as amended). Neither the property-text parser nor the extraction of an embedded
  string raises. The code page has no character for five byte values (\<open>0x81\<close>,
  \<open>0x8D\<close>, \<open>0x8F\<close>, \<open>0x90\<close>, \<open>0x9D\<close>): decoding fails exactly on the byte
  sequences that hold one of them, the failure is caught, and the parser then returns
  the empty map and the extraction the empty string. On every other sequence decoding
  succeeds, character by character.
\<close>

theorem text_decoding:
  "(decode_cp1252 data = Inl UnicodeDecodeError \<longleftrightarrow> (\<exists>b\<in>set data. b \<in> cp1252_undefined))
   \<and> ((\<exists>b\<in>set data. b \<in> cp1252_undefined) \<longrightarrow> parse_properties data = [])
   \<and> ((\<forall>b\<in>set data. b \<notin> cp1252_undefined) \<longrightarrow>
        decode_cp1252 data = Inr (map (\<lambda>b. the (cp1252_char b)) data)
        \<and> parse_properties data = parse_text (map (\<lambda>b. the (cp1252_char b)) data))
   \<and> (1 + n \<le> length (word_of_nat n # data) \<and> n < 256 \<longrightarrow>
        read_string_from_block (word_of_nat n # data) =
          (if \<exists>b\<in>set (take n data). b \<in> cp1252_undefined then []
           else map (\<lambda>b. the (cp1252_char b)) (take n data)))"
  by (auto simp: decode_cp1252_eq parse_properties_def read_string_from_block_def slice_def
      unat_of_nat Let_def)

theorem text_decoding_witness:
  "decode_cp1252 (bytes_of ''A=1|'' @ [0x81]) = Inl UnicodeDecodeError
   \<and> parse_properties (bytes_of ''A=1|'' @ [0x81]) = []
   \<and> decode_cp1252 (bytes_of ''A=1'') = Inr (str_of ''A=1'')
   \<and> parse_properties (bytes_of ''A=1'') = [(str_of ''A'', str_of ''1'')]
   \<and> read_string_from_block (2 # [0x41, 0x80, 0x42]) = [0x41, 0x20AC]"
  using text_decoding [of "bytes_of ''A=1|'' @ [0x81]" 0]
    text_decoding [of "bytes_of ''A=1''" 0]
    text_decoding [of "[0x41, 0x80, 0x42]" 2]
  by (simp add: eval_props cp1252_table_def)

text \<open>
  C3 as stated fails: the code page is not total. One byte \<open>0x81\<close> makes decoding
  fail, and with it the parser loses the well-formed \<open>A=1\<close> that precedes it.
\<close>

theorem code_page_total_counterexample:
  "decode_cp1252 [0x81] = Inl UnicodeDecodeError
   \<and> parse_properties (bytes_of ''A=1|'' @ [0x81]) = []
   \<and> read_string_from_block [1, 0x81] = []"
  by (simp add: eval_props read_string_from_block_def slice_def)

section \<open>Properties of the SchLib decoders\<close>




lemma decode_utf8_error: "decode_utf8 bs = Inl e \<Longrightarrow> e = UnicodeDecodeError"
  by (induction bs arbitrary: e rule: decode_utf8.induct)
     (auto split: option.splits sum.splits prod.splits)

lemma read_text_error: "fst (read_text n r) = Inl e \<Longrightarrow> e = UnicodeDecodeError"
  by (auto simp: read_text_def dest: decode_utf8_error split: if_splits)

lemma parse_binary_pin_error:
  "parse_binary_pin data = Inl e \<Longrightarrow> e = UnicodeDecodeError"
  by (auto simp: parse_binary_pin_def Let_def split_def
      dest: read_text_error split: sum.splits)




lemma sch_loop_step:
  assumes "int offset < int (length data) - 4"
    and "le_nat (slice data offset (offset + 2)) = record_length" and "record_length \<noteq> 0"
  shows "sch_loop data offset n recs =
     (case decode_record (be_nat (slice data (offset + 2) (offset + 4)))
             (slice data (offset + 4) (offset + 4 + record_length)) of
        Inl e \<Rightarrow> (SchRaised e, offset, n, recs)
      | Inr props \<Rightarrow> sch_loop data (offset + 4 + record_length) (n + 1) (recs @ [props]))"
  using assms by (subst sch_loop.simps) (simp add: Let_def)

lemma decode_record_error:
  "decode_record record_type record_data = Inl e \<Longrightarrow> record_type = 1 \<and> e = UnicodeDecodeError"
  by (auto simp: decode_record_def dest: parse_binary_pin_error split: if_splits sum.splits)

text \<open>
  What the loop does with one record. Whenever the payload decoder returns, the cursor
  advances by exactly 4 plus the record length and the record is appended. A text record
  and a record of unknown type always decode. When the decoder of a binary pin record
  raises, the loop ends there: the cursor does not advance and no later record is
  decoded.
\<close>

theorem sch_loop_advance:
  assumes "int offset < int (length data) - 4"
    and "le_nat (slice data offset (offset + 2)) = record_length" and "record_length \<noteq> 0"
    and "record_type = be_nat (slice data (offset + 2) (offset + 4))"
    and "record_data = slice data (offset + 4) (offset + 4 + record_length)"
  shows "(decode_record record_type record_data = Inr props \<longrightarrow>
            sch_loop data offset n recs =
              sch_loop data (offset + 4 + record_length) (n + 1) (recs @ [props]))
       \<and> (record_type \<noteq> 1 \<longrightarrow> (\<exists>props. decode_record record_type record_data = Inr props))
       \<and> (decode_record record_type record_data = Inl e \<longrightarrow>
            record_type = 1 \<and> e = UnicodeDecodeError
            \<and> sch_loop data offset n recs = (SchRaised e, offset, n, recs))"
proof (intro conjI impI)
  assume "decode_record record_type record_data = Inr props"
  then show "sch_loop data offset n recs =
      sch_loop data (offset + 4 + record_length) (n + 1) (recs @ [props])"
    using sch_loop_step [OF assms(1-3), of n recs] assms(4,5) by simp
next
  assume "record_type \<noteq> 1"
  then show "\<exists>props. decode_record record_type record_data = Inr props"
    by (simp add: decode_record_def)
next
  assume e: "decode_record record_type record_data = Inl e"
  then show "record_type = 1" and "e = UnicodeDecodeError"
    using decode_record_error by blast+
  from e show "sch_loop data offset n recs = (SchRaised e, offset, n, recs)"
    using sch_loop_step [OF assms(1-3), of n recs] assms(4,5) by simp
qed

lemmas eval_sch = sch_loop.simps decode_record_def slice_def be_nat_def Let_def
  parse_binary_pin_def reader_read_def read_text_def split_def utf8_step_def le_int_signed_def

theorem sch_loop_advance_witness:
  "sch_loop ([3, 0, 0, 0] @ bytes_of ''A=1'' @ [0, 0, 0, 0, 0]) 0 0 []
     = sch_loop ([3, 0, 0, 0] @ bytes_of ''A=1'' @ [0, 0, 0, 0, 0]) 7 1
         [TextRecord [(str_of ''A'', str_of ''1'')]]
   \<and> sch_loop ([3, 0, 0, 0] @ bytes_of ''A=1'' @ [0, 0, 0, 0, 0]) 0 0 []
     = (EndMarker, 7, 1, [TextRecord [(str_of ''A'', str_of ''1'')]])"
proof -
  let ?d = "[3, 0, 0, 0] @ bytes_of ''A=1'' @ [0, 0, 0, 0, 0]"
  have a: "int 0 < int (length ?d) - 4" by (simp add: bytes_of_def)
  have b: "le_nat (slice ?d 0 (0 + 2)) = 3" by (simp add: slice_def)
  have c: "(3::nat) \<noteq> 0" by simp
  have d: "(0::nat) = be_nat (slice ?d (0 + 2) (0 + 4))" by (simp add: slice_def be_nat_def)
  have e: "bytes_of ''A=1'' = slice ?d (0 + 4) (0 + 4 + 3)" by (simp add: slice_def bytes_of_def)
  have f: "decode_record 0 (bytes_of ''A=1'') = Inr (TextRecord [(str_of ''A'', str_of ''1'')])"
    by (simp add: decode_record_def eval_props)
  have g: "sch_loop ?d 7 1 [TextRecord [(str_of ''A'', str_of ''1'')]]
     = (EndMarker, 7, 1, [TextRecord [(str_of ''A'', str_of ''1'')]])"
    by (simp add: sch_loop.simps slice_def bytes_of_def)
  from sch_loop_advance [OF a b c d e, of "TextRecord [(str_of ''A'', str_of ''1'')]" 0 "[]"] f g
  show ?thesis by simp
qed

lemma parse_binary_pin_description_raises:
  assumes "le_nat (take 1 (drop 12 data)) = n" and "n \<noteq> 0"
    and "decode_utf8 (take n (drop 14 data)) = Inl e"
  shows "parse_binary_pin data = Inl e"
  using assms
  by (simp add: parse_binary_pin_def Let_def split_def reader_read_def read_text_def)

text \<open>
  C4. The claim: the cursor advances by 4 plus the record length whether or not the
  payload decoded, so that one malformed record never stops the decoding of the records
  after it. The text decoder guards its decoding and the loop goes on past any text
  record; the decoder of a binary pin record does not. On the stream of a pin record
  whose description is the one byte \<open>0xFF\<close>, followed by the text record \<open>A=1\<close>
  and an end marker, the loop ends by the exception with the cursor at 0 and decodes no
  record. With \<open>0x41\<close> in place of \<open>0xFF\<close> the same stream decodes both records
  and ends at the end marker.
\<close>

theorem sch_loop_pin_raises:
  "sch_loop (invalid_pin_stream 0xFF) 0 0 [] = (SchRaised UnicodeDecodeError, 0, 0, [])
   \<and> sch_loop (invalid_pin_stream 0x41) 0 0 []
       = (EndMarker, 26, 2,
          [BinaryPinRecord (one_char_pin 0x41), TextRecord [(str_of ''A'', str_of ''1'')]])"
  by (simp add: invalid_pin_stream_def one_char_pin_def eval_sch eval_props)





lemma sch_loop_exhausted:
  "length data \<le> offset + 4 \<Longrightarrow> sch_loop data offset n recs = (Exhausted, offset, n, recs)"
  by (subst sch_loop.simps) simp

lemma sch_loop_end_marker:
  "sch_loop data offset n recs = (EndMarker, offset', n', recs') \<Longrightarrow>
     offset' + 5 \<le> length data \<and> le_nat (slice data offset' (offset' + 2)) = 0"
proof (induction data offset n recs rule: sch_loop.induct)
  case (1 data offset record_num records)
  show ?case
  proof (cases "int offset < int (length data) - 4")
    case False
    with "1.prems" show ?thesis by (subst (asm) sch_loop.simps) simp
  next
    case True
    show ?thesis
    proof (cases "le_nat (slice data offset (offset + 2)) = 0")
      case z: True
      with True "1.prems" have "offset' = offset"
        by (subst (asm) sch_loop.simps) (simp add: Let_def)
      with True z show ?thesis by simp
    next
      case nz: False
      from "1.prems" True nz obtain props where
        d: "decode_record (be_nat (slice data (offset + 2) (offset + 4)))
              (slice data (offset + 4) (offset + 4 + le_nat (slice data offset (offset + 2))))
            = Inr props"
        and r: "sch_loop data (offset + 4 + le_nat (slice data offset (offset + 2)))
              (record_num + 1) (records @ [props]) = (EndMarker, offset', n', recs')"
        by (subst (asm) sch_loop.simps) (auto simp: Let_def split: sum.splits)
      show ?thesis
        using "1.IH" [OF True refl refl nz refl d r] .
    qed
  qed
qed

lemma sch_loop_raised:
  "sch_loop data offset n recs = (SchRaised e, offset', n', recs') \<Longrightarrow> e = UnicodeDecodeError"
proof (induction data offset n recs rule: sch_loop.induct)
  case (1 data offset record_num records)
  show ?case
  proof (cases "int offset < int (length data) - 4
                \<and> le_nat (slice data offset (offset + 2)) \<noteq> 0")
    case False
    with "1.prems" show ?thesis
      by (subst (asm) sch_loop.simps) (auto simp: Let_def split: if_splits)
  next
    case True
    then have c: "int offset < int (length data) - 4"
      and nz: "le_nat (slice data offset (offset + 2)) \<noteq> 0" by simp_all
    show ?thesis
    proof (cases "decode_record (be_nat (slice data (offset + 2) (offset + 4)))
              (slice data (offset + 4) (offset + 4 + le_nat (slice data offset (offset + 2))))")
      case (Inl e')
      with "1.prems" c nz have "e = e'"
        by (subst (asm) sch_loop.simps) (simp add: Let_def)
      with Inl show ?thesis using decode_record_error by blast
    next
      case (Inr props)
      with "1.prems" c nz have r: "sch_loop data (offset + 4 + le_nat (slice data offset (offset + 2)))
              (record_num + 1) (records @ [props]) = (SchRaised e, offset', n', recs')"
        by (subst (asm) sch_loop.simps) (simp add: Let_def)
      show ?thesis using "1.IH" [OF c refl refl nz refl Inr r] .
    qed
  qed
qed

text \<open>
  How the loop ends. With four bytes or fewer at the cursor it ends by its condition,
  with the records decoded so far and whatever the remaining bytes are; so a terminator
  in exactly the last four bytes is never read as an end marker. An end marker is only
  recognised with at least five bytes remaining, and the only error that the loop can
  end in is a UTF-8 decoding error.
\<close>

theorem sch_loop_silent_end:
  "(length data \<le> offset + 4 \<longrightarrow> sch_loop data offset n recs = (Exhausted, offset, n, recs))
   \<and> sch_loop (pre @ [0, 0, 0, 0]) (length pre) n recs = (Exhausted, length pre, n, recs)
   \<and> (sch_loop data offset n recs = (EndMarker, offset', n', recs') \<longrightarrow>
        offset' + 5 \<le> length data \<and> le_nat (slice data offset' (offset' + 2)) = 0)
   \<and> (sch_loop data offset n recs = (SchRaised e, offset', n', recs') \<longrightarrow>
        e = UnicodeDecodeError)"
  using sch_loop_end_marker [of data offset n recs offset' n' recs']
    sch_loop_raised [of data offset n recs e offset' n' recs']
  by (simp add: sch_loop_exhausted)

theorem sch_loop_silent_end_witness:
  "length ([3, 0, 0, 0] @ bytes_of ''A=1'' @ [0, 0, 0, 0]) \<le> 7 + 4
   \<and> sch_loop ([3, 0, 0, 0] @ bytes_of ''A=1'' @ [0, 0, 0, 0]) 0 0 []
       = (Exhausted, 7, 1, [TextRecord [(str_of ''A'', str_of ''1'')]])
   \<and> sch_loop ([3, 0, 0, 0] @ bytes_of ''A=1'' @ [0, 0, 0, 0, 0]) 0 0 []
       = (EndMarker, 7, 1, [TextRecord [(str_of ''A'', str_of ''1'')]])
   \<and> 7 + 5 \<le> length ([3, 0, 0, 0] @ bytes_of ''A=1'' @ [0, 0, 0, 0, 0])"
proof -
  let ?d = "[3, 0, 0, 0] @ bytes_of ''A=1'' @ [0, 0, 0, 0]"
  let ?e = "[3, 0, 0, 0] @ bytes_of ''A=1'' @ [0, 0, 0, 0, 0]"
  let ?r = "[TextRecord [(str_of ''A'', str_of ''1'')]]"
  have l: "length ?d \<le> 7 + 4" by (simp add: bytes_of_def)
  have s1: "sch_loop ?d 0 0 [] = sch_loop ?d 7 1 ?r"
    by (subst sch_loop.simps) (simp add: slice_def be_nat_def decode_record_def eval_props)
  have s2: "sch_loop ?d 7 1 ?r = (Exhausted, 7, 1, ?r)"
    using sch_loop_silent_end [where data = ?d and offset = 7 and n = 1 and recs = ?r] l by blast
  have s3: "sch_loop ?e 0 0 [] = (EndMarker, 7, 1, ?r)"
    by (simp add: sch_loop.simps slice_def be_nat_def decode_record_def eval_props)
  have s4: "7 + 5 \<le> length ?e"
    using sch_loop_silent_end [where data = ?e and offset = 0 and n = 0 and recs = "[]"
        and offset' = 7 and n' = 1 and recs' = ?r] s3 by blast
  show ?thesis using l s1 s2 s3 s4 by simp
qed

lemma le_nat_le16: "n < 65536 \<Longrightarrow> le_nat (le16 n) = n"
proof -
  assume n: "n < 65536"
  have b: "unat (word_of_nat k :: byte) = k mod 256" for k
    by (simp add: unat_of_nat)
  from n have "n < 256 * 256" by simp
  then have "n div 256 < 256" by (rule less_mult_imp_div_less)
  then have c: "n div 256 mod 256 = n div 256" by simp
  have "le_nat (le16 n) = n mod 256 + 256 * (n div 256 mod 256)"
    by (simp add: le16_def b)
  also have "\<dots> = n" by (simp only: c mod_mult_div_eq)
  finally show ?thesis .
qed

lemma be_nat_be16: "n < 65536 \<Longrightarrow> be_nat (be16 n) = n"
  using le_nat_le16 [of n] by (simp add: be_nat_def be16_def le16_def)

lemma length_enc_record: "length (enc_record rp) = 4 + length (snd rp)"
  by (simp add: enc_record_def le16_def be16_def)

lemma sch_loop_enc_record:
  assumes "wf_record rp"
  shows "sch_loop (pre @ enc_record rp @ rest) (length pre) n recs
     = sch_loop (pre @ enc_record rp @ rest) (length (pre @ enc_record rp)) (n + 1)
         (recs @ [record_of rp])"
proof -
  let ?data = "pre @ enc_record rp @ rest"
  let ?l = "length (snd rp)"
  from assms have l: "0 < ?l" "?l < 65536" and t: "fst rp < 65536"
    and d: "\<not> isl (decode_record (fst rp) (snd rp))"
    by (simp_all add: wf_record_def)
  from l have "length pre + 4 < length ?data"
    by (simp add: length_enc_record)
  then have c: "int (length pre) < int (length ?data) - 4"
    by linarith
  have sa: "slice ?data (length pre) (length pre + 2) = le16 ?l"
    by (simp add: slice_def enc_record_def le16_def)
  have a: "le_nat (slice ?data (length pre) (length pre + 2)) = ?l"
    unfolding sa using l(2) by (rule le_nat_le16)
  have sb: "slice ?data (length pre + 2) (length pre + 4) = be16 (fst rp)"
    by (simp add: slice_def enc_record_def le16_def be16_def)
  have b: "be_nat (slice ?data (length pre + 2) (length pre + 4)) = fst rp"
    unfolding sb using t by (rule be_nat_be16)
  have p: "slice ?data (length pre + 4) (length pre + 4 + ?l) = snd rp"
    by (simp add: slice_def enc_record_def le16_def be16_def)
  from d have r: "decode_record (fst rp) (snd rp) = Inr (record_of rp)"
    by (cases "decode_record (fst rp) (snd rp)") (simp_all add: record_of_def)
  from l have nz: "?l \<noteq> 0" by simp
  have eq: "length (pre @ enc_record rp) = length pre + 4 + ?l"
    by (simp add: length_enc_record)
  show ?thesis
    unfolding eq using sch_loop_step [OF c a nz, of n recs]
    by (simp only: b p r sum.case)
qed

lemma sch_loop_stream:
  "list_all wf_record rps \<Longrightarrow>
   sch_loop (pre @ enc_records rps @ rest) (length pre) n recs
     = sch_loop (pre @ enc_records rps @ rest) (length pre + length (enc_records rps))
         (n + length rps) (recs @ map record_of rps)"
proof (induction rps arbitrary: pre n recs)
  case Nil
  show ?case by (simp add: enc_records_def)
next
  case (Cons rp rps)
  from Cons.prems have wf: "wf_record rp" and wfs: "list_all wf_record rps" by simp_all
  let ?data = "pre @ enc_records (rp # rps) @ rest"
  have d1: "?data = pre @ enc_record rp @ (enc_records rps @ rest)"
    by (simp add: enc_records_def)
  have d2: "?data = (pre @ enc_record rp) @ enc_records rps @ rest"
    by (simp add: enc_records_def)
  have "sch_loop ?data (length pre) n recs
      = sch_loop ?data (length (pre @ enc_record rp)) (n + 1) (recs @ [record_of rp])"
    unfolding d1 by (rule sch_loop_enc_record [OF wf])
  also have "\<dots> = sch_loop ?data (length (pre @ enc_record rp) + length (enc_records rps))
      (n + 1 + length rps) ((recs @ [record_of rp]) @ map record_of rps)"
    unfolding d2 by (rule Cons.IH [OF wfs])
  finally show ?case by (simp add: enc_records_def add.assoc)
qed

text \<open>
  A stream of well-formed records decodes record by record: followed by at most four
  more bytes (none, or a terminator of four zero bytes at the very end) the loop ends
  by its condition with exactly these records; followed by a terminator and at least
  one more byte it ends at the end marker with the same records.
\<close>

theorem sch_loop_records:
  assumes "list_all wf_record rps"
  shows "(length rest \<le> 4 \<longrightarrow>
           sch_loop (enc_records rps @ rest) 0 0 []
             = (Exhausted, length (enc_records rps), length rps, map record_of rps))
       \<and> sch_loop (enc_records rps @ [0, 0, 0, 0] @ b # rest) 0 0 []
             = (EndMarker, length (enc_records rps), length rps, map record_of rps)"
proof (intro conjI impI)
  assume r: "length rest \<le> 4"
  have "sch_loop (enc_records rps @ rest) 0 0 []
      = sch_loop (enc_records rps @ rest) (length (enc_records rps)) (length rps)
          (map record_of rps)"
    using sch_loop_stream [OF assms, of "[]" rest 0 "[]"] by simp
  also have "\<dots> = (Exhausted, length (enc_records rps), length rps, map record_of rps)"
    using r by (intro sch_loop_exhausted) simp
  finally show "sch_loop (enc_records rps @ rest) 0 0 []
      = (Exhausted, length (enc_records rps), length rps, map record_of rps)" .
next
  let ?data = "enc_records rps @ [0, 0, 0, 0] @ b # rest"
  have "sch_loop ?data 0 0 []
      = sch_loop ?data (length (enc_records rps)) (length rps) (map record_of rps)"
    using sch_loop_stream [OF assms, of "[]" "[0, 0, 0, 0] @ b # rest" 0 "[]"] by simp
  also have "\<dots> = (EndMarker, length (enc_records rps), length rps, map record_of rps)"
    by (subst sch_loop.simps) (simp add: slice_def)
  finally show "sch_loop ?data 0 0 []
      = (EndMarker, length (enc_records rps), length rps, map record_of rps)" .
qed

text \<open>
  C10. The claim: a stream that ends without an end marker completes silently with the
  records decoded so far. That holds whenever the decoders return
  (\<open>sch_loop_records\<close>, \<open>sch_loop_silent_end\<close>), but not for every stream: the
  stream below has no end marker and ends inside the description of a pin record; the
  byte that is left, \<open>0xC3\<close>, starts a character that is cut off, decoding it raises,
  and the loop ends by the exception instead of by its condition. With \<open>0x41\<close> in
  place of \<open>0xC3\<close> the same cut stream ends silently, with the pin record decoded.
\<close>

theorem sch_loop_cut_pin_raises:
  "length (cut_pin_stream 0xC3) = 19
   \<and> sch_loop (cut_pin_stream 0xC3) 0 0 [] = (SchRaised UnicodeDecodeError, 0, 0, [])
   \<and> sch_loop (cut_pin_stream 0x41) 0 0 []
       = (Exhausted, 20, 1, [BinaryPinRecord (one_char_pin 0x41)])"
  by (simp add: cut_pin_stream_def one_char_pin_def eval_sch eval_props)

section \<open>Properties of the PcbLib decoders\<close>

lemma region_loop_ok:
  "(\<forall>i\<in>set is. 4 + i * 16 + 16 \<le> length block1 \<longrightarrow> vertex_ok (vertex_at block1 i)) \<Longrightarrow>
   region_loop block1 is =
     Inr (map (vertex_at block1) (filter (\<lambda>i. 4 + i * 16 + 16 \<le> length block1) is))"
  by (induction "is") (auto simp: Let_def vertex_at_def vertex_ok_def)

lemma filter_fits:
  "filter (\<lambda>i. 4 + i * 16 + 16 \<le> n) [0 ..< c] = [0 ..< min c ((n - 4) div 16)]"
proof (induction c)
  case 0
  then show ?case by simp
next
  case (Suc c)
  have "4 + c * 16 + 16 \<le> n \<longleftrightarrow> c < (n - 4) div 16" by auto
  with Suc show ?case by (auto simp: min_def)
qed

lemma region_vertices_ok:
  assumes "4 \<le> length block1"
    and "\<forall>i < unpack_I block1 0. 4 + i * 16 + 16 \<le> length block1 \<longrightarrow> vertex_ok (vertex_at block1 i)"
  shows "region_vertices block1 =
     Inr (map (vertex_at block1) [0 ..< min (unpack_I block1 0) ((length block1 - 4) div 16)])"
proof -
  have "region_loop block1 [0 ..< unpack_I block1 0] =
      Inr (map (vertex_at block1)
        (filter (\<lambda>i. 4 + i * 16 + 16 \<le> length block1) [0 ..< unpack_I block1 0]))"
    by (rule region_loop_ok) (use assms(2) in auto)
  then have "region_loop block1 [0 ..< unpack_I block1 0] =
      Inr (map (vertex_at block1) [0 ..< min (unpack_I block1 0) ((length block1 - 4) div 16)])"
    by (simp only: filter_fits)
  with assms(1) show ?thesis
    by (simp only: region_vertices_def if_True)
qed

lemmas eval_region = region_vertices_def unpack_I_def unpack_d_def slice_def
  int_of_double_error_def Let_def upt_rec

lemma region_three_vertices:
  assumes "length block1 = 3 * 16 + 4" and "unpack_I block1 0 = 3"
    and "vertex_ok (vertex_at block1 0)" and "vertex_ok (vertex_at block1 1)"
    and "vertex_ok (vertex_at block1 2)"
  shows "region_vertices block1 = Inr [vertex_at block1 0, vertex_at block1 1, vertex_at block1 2]
    \<and> map v_base [vertex_at block1 0, vertex_at block1 1, vertex_at block1 2] = [4, 20, 36]"
proof -
  have "vertex_ok (vertex_at block1 i)" if "i < unpack_I block1 0" for i
  proof -
    from that assms(2) have "i = 0 \<or> i = 1 \<or> i = 2" by arith
    with assms(3-5) show ?thesis by auto
  qed
  then have "\<forall>i < unpack_I block1 0. 4 + i * 16 + 16 \<le> length block1 \<longrightarrow>
      vertex_ok (vertex_at block1 i)"
    by blast
  then have "region_vertices block1 =
      Inr (map (vertex_at block1) [0 ..< min (unpack_I block1 0) ((length block1 - 4) div 16)])"
    using assms(1) by (intro region_vertices_ok) simp_all
  then show ?thesis
    using assms(1,2) by (simp add: upt_rec vertex_at_def)
qed

text \<open>
  C7. The count is the little-endian value of the first four bytes, vertex \<open>i\<close> is read
  at offset \<open>4 + 16 i\<close>, and vertices that would pass the end of the block are left
  out without error (\<open>region_vertices_ok\<close>, \<open>region_three_vertices\<close>): this holds
  when \<open>int\<close> accepts every coordinate that is read. It does not hold for every block:
  on the block below, of 52 bytes with a count of 3, the x coordinate of the first
  vertex is a NaN, \<open>int(x)\<close> raises \<open>ValueError\<close>, and no vertex is decoded.
\<close>

theorem region_nan_raises:
  "length nan_region_block = 3 * 16 + 4 \<and> unpack_I nan_region_block 0 = 3
   \<and> unpack_d nan_region_block 4 = 0x7FF8000000000000
   \<and> region_vertices nan_region_block = Inl ValueError"
  by (simp add: nan_region_block_def eval_region)

lemma fp_loop_step:
  "offset < length data \<Longrightarrow> data ! offset \<noteq> 0 \<Longrightarrow>
   fp_loop data offset n prims =
     (case parse_blocks (data ! offset) data (offset + 1) of
        None \<Rightarrow> (Aborted (data ! offset), offset + 1, n, prims)
      | Some (Inl e) \<Rightarrow> (FpRaised e, offset + 1, n, prims)
      | Some (Inr (p, offset')) \<Rightarrow> fp_loop data offset' (n + 1) (prims @ [p]))"
  by (subst fp_loop.simps) (simp add: Let_def)

lemma parse_blocks_None:
  "parse_blocks record_type data offset = None \<longleftrightarrow>
     record_type \<notin> {0x01, 0x02, 0x04, 0x05, 0x06, 0x0B, 0x0C}"
  by (simp add: parse_blocks_def)

lemma parse_blocks_name:
  "parse_blocks record_type data offset = Some (Inr (p, offset')) \<Longrightarrow>
     record_names record_type = Some (prim_name p)"
  by (auto simp: parse_blocks_def record_names_def parse_pad_blocks_v2_def
      parse_track_blocks_def parse_arc_blocks_def parse_text_blocks_def
      parse_region_blocks_def parse_fill_blocks_def parse_component_body_blocks_def
      Let_def split: if_splits prod.splits sum.splits)

lemma parse_blocks_raises:
  "parse_blocks record_type data offset = Some (Inl e) \<Longrightarrow> record_type = 0x0B"
  by (auto simp: parse_blocks_def split: if_splits)

text \<open>
  C1 (as amended). Each turn of the loop reads one record type at the offset. A type of
  0 ends the loop as done. A type among 1, 2, 4, 5, 6, \<open>0x0B\<close> and \<open>0x0C\<close> runs
  the parser of its kind; when the parser returns, the primitive it decoded has the
  name the table gives the type, it is appended, and the loop goes on at the offset the
  parser returned (every parser but that of a region always returns). Every other type
  ends the loop as aborted, one byte past the type, with the primitives decoded so far:
  that includes type 3, which the table names \<open>Via\<close> and for which there is no parser.
\<close>

theorem fp_loop_transitions:
  assumes "offset < length data"
  shows "(data ! offset = 0 \<longrightarrow> fp_loop data offset n prims = (Done, offset, n, prims))
   \<and> (data ! offset \<in> {0x01, 0x02, 0x04, 0x05, 0x06, 0x0B, 0x0C}
        \<and> parse_blocks (data ! offset) data (offset + 1) = Some (Inr (p, offset')) \<longrightarrow>
        record_names (data ! offset) = Some (prim_name p)
        \<and> fp_loop data offset n prims = fp_loop data offset' (n + 1) (prims @ [p]))
   \<and> (data ! offset \<in> {0x01, 0x02, 0x04, 0x05, 0x06, 0x0C} \<longrightarrow>
        (\<exists>q o'. parse_blocks (data ! offset) data (offset + 1) = Some (Inr (q, o'))))
   \<and> (data ! offset \<notin> {0x00, 0x01, 0x02, 0x04, 0x05, 0x06, 0x0B, 0x0C} \<longrightarrow>
        fp_loop data offset n prims = (Aborted (data ! offset), offset + 1, n, prims))
   \<and> (data ! offset = 0x03 \<longrightarrow>
        record_names (data ! offset) = Some ''Via''
        \<and> fp_loop data offset n prims = (Aborted 0x03, offset + 1, n, prims))"
proof (intro conjI impI)
  assume "data ! offset = 0"
  with assms show "fp_loop data offset n prims = (Done, offset, n, prims)"
    by (subst fp_loop.simps) simp
next
  assume a: "data ! offset \<in> {0x01, 0x02, 0x04, 0x05, 0x06, 0x0B, 0x0C}
        \<and> parse_blocks (data ! offset) data (offset + 1) = Some (Inr (p, offset'))"
  then show "record_names (data ! offset) = Some (prim_name p)"
    using parse_blocks_name by blast
  from a have "data ! offset \<noteq> 0" by auto
  with a assms show "fp_loop data offset n prims = fp_loop data offset' (n + 1) (prims @ [p])"
    by (simp add: fp_loop_step)
next
  assume "data ! offset \<in> {0x01, 0x02, 0x04, 0x05, 0x06, 0x0C}"
  then show "\<exists>q o'. parse_blocks (data ! offset) data (offset + 1) = Some (Inr (q, o'))"
    by (auto simp: parse_blocks_def intro: prod.exhaust)
next
  assume a: "data ! offset \<notin> {0x00, 0x01, 0x02, 0x04, 0x05, 0x06, 0x0B, 0x0C}"
  then have "parse_blocks (data ! offset) data (offset + 1) = None"
    by (simp add: parse_blocks_None)
  moreover from a have "data ! offset \<noteq> 0" by simp
  ultimately show "fp_loop data offset n prims = (Aborted (data ! offset), offset + 1, n, prims)"
    using assms by (simp add: fp_loop_step)
next
  assume a: "data ! offset = 0x03"
  then show "record_names (data ! offset) = Some ''Via''"
    by (simp add: record_names_def)
  from a have "parse_blocks (data ! offset) data (offset + 1) = None"
    by (simp add: parse_blocks_None)
  with a assms show "fp_loop data offset n prims = (Aborted 0x03, offset + 1, n, prims)"
    by (simp add: fp_loop_step)
qed

lemmas eval_fp = parse_blocks_def parse_pad_blocks_v2_def
  parse_track_blocks_def parse_arc_blocks_def parse_text_blocks_def
  parse_region_blocks_def parse_fill_blocks_def parse_component_body_blocks_def
  read_block_def unpack_I_def slice_def Let_def read_string_from_block_def

text \<open>
  C1 as stated fails at type 3: it is in the table, no block sequence is run for it and
  nothing is appended; the loop ends as aborted.
\<close>

theorem fp_loop_via_counterexample:
  "record_names 0x03 = Some ''Via''
   \<and> fp_loop [0x03, 0, 0, 0, 0, 0] 0 0 [] = (Aborted 0x03, 1, 0, [])"
  by (simp add: record_names_def fp_loop.simps parse_blocks_def)

theorem fp_loop_transitions_witness:
  "fp_loop [0x04, 2, 0, 0, 0, 7, 8, 0x03, 0] 0 0 [] = (Aborted 0x03, 8, 1, [Track [7, 8]])
   \<and> fp_loop [0x04, 2, 0, 0, 0, 7, 8, 0] 0 0 [] = (Done, 7, 1, [Track [7, 8]])
   \<and> record_names 0x04 = Some (prim_name (Track [7, 8]))"
proof -
  let ?d = "[0x04, 2, 0, 0, 0, 7, 8, 0x03, 0] :: byte list"
  let ?e = "[0x04, 2, 0, 0, 0, 7, 8, 0] :: byte list"
  have pd: "parse_blocks (?d ! 0) ?d (0 + 1) = Some (Inr (Track [7, 8], 7))"
    by (simp add: eval_fp)
  have pe: "parse_blocks (?e ! 0) ?e (0 + 1) = Some (Inr (Track [7, 8], 7))"
    by (simp add: eval_fp)
  have d1: "fp_loop ?d 0 0 [] = fp_loop ?d 7 (0 + 1) ([] @ [Track [7, 8]])"
    using fp_loop_transitions [where data = ?d and offset = 0 and p = "Track [7, 8]"
        and offset' = 7 and n = 0 and prims = "[]"] pd by simp
  have d2: "fp_loop ?d 7 1 [Track [7, 8]] = (Aborted 0x03, 8, 1, [Track [7, 8]])"
    using fp_loop_transitions [where data = ?d and offset = 7 and n = 1
        and prims = "[Track [7, 8]]"] by simp
  have e1: "fp_loop ?e 0 0 [] = fp_loop ?e 7 (0 + 1) ([] @ [Track [7, 8]])"
    using fp_loop_transitions [where data = ?e and offset = 0 and p = "Track [7, 8]"
        and offset' = 7 and n = 0 and prims = "[]"] pe by simp
  have e2: "fp_loop ?e 7 1 [Track [7, 8]] = (Done, 7, 1, [Track [7, 8]])"
    using fp_loop_transitions [where data = ?e and offset = 7 and n = 1
        and prims = "[Track [7, 8]]"] by simp
  have nm: "record_names 0x04 = Some (prim_name (Track [7, 8]))"
    by (simp add: record_names_def)
  show ?thesis using d1 d2 e1 e2 nm by simp
qed

subsection \<open>Well-formed footprint buffers decode completely\<close>

lemma le_nat_le32: "n < 2 ^ 32 \<Longrightarrow> le_nat (le32 n) = n"
proof -
  assume n: "n < 2 ^ 32"
  have b: "unat (word_of_nat k :: byte) = k mod 256" for k
    by (simp add: unat_of_nat)
  have e1: "n div 65536 = n div 256 div 256"
    by (simp add: div_mult2_eq [symmetric])
  have e2: "n div 16777216 = n div 256 div 256 div 256"
    by (simp add: div_mult2_eq [symmetric])
  from n have "n < 256 * 16777216" by simp
  then have "n div 16777216 < 256"
    by (rule less_mult_imp_div_less)
  then have c: "n div 256 div 256 div 256 mod 256 = n div 256 div 256 div 256"
    by (simp add: e2)
  have "le_nat (le32 n) = n mod 256 + 256 * ((n div 256) mod 256
      + 256 * ((n div 256 div 256) mod 256 + 256 * ((n div 256 div 256 div 256) mod 256)))"
    by (simp add: le32_def b e1 e2)
  also have "\<dots> = n"
    by (simp only: c mod_mult_div_eq)
  finally show ?thesis .
qed

lemma length_le32: "length (le32 n) = 4"
  by (simp add: le32_def)

lemma length_enc_block: "length (enc_block b) = 4 + length b"
  by (simp add: enc_block_def length_le32)

lemma read_block_enc:
  assumes "length b \<le> 100000"
  shows "read_block (pre @ enc_block b @ post) (length pre) = (b, length pre + 4 + length b)"
proof -
  have "unpack_I (pre @ enc_block b @ post) (length pre) = le_nat (le32 (length b))"
    by (simp add: unpack_I_def slice_def enc_block_def length_le32)
  also have "\<dots> = length b" using assms by (intro le_nat_le32) simp
  finally have u: "unpack_I (pre @ enc_block b @ post) (length pre) = length b" .
  have "slice (pre @ enc_block b @ post) (length pre + 4) (length pre + 4 + length b) = b"
    by (simp add: slice_def enc_block_def length_le32)
  with u assms show ?thesis
    by (simp add: read_block_def length_enc_block)
qed

lemma read_seq_enc:
  "list_all (\<lambda>b. length b \<le> 100000) bs \<Longrightarrow>
   read_seq (pre @ enc_blocks bs @ post) (length pre) (length bs)
     = (bs, length pre + length (enc_blocks bs))"
proof (induction bs arbitrary: pre)
  case Nil
  then show ?case by (simp add: enc_blocks_def)
next
  case (Cons b bs)
  have e: "pre @ enc_blocks (b # bs) @ post = pre @ enc_block b @ (enc_blocks bs @ post)"
    by (simp add: enc_blocks_def)
  have e': "pre @ enc_blocks (b # bs) @ post = (pre @ enc_block b) @ enc_blocks bs @ post"
    by (simp add: enc_blocks_def)
  have r: "read_block (pre @ enc_blocks (b # bs) @ post) (length pre)
      = (b, length (pre @ enc_block b))"
    unfolding e using Cons.prems by (simp add: read_block_enc length_enc_block)
  have s: "read_seq (pre @ enc_blocks (b # bs) @ post) (length (pre @ enc_block b)) (length bs)
      = (bs, length (pre @ enc_block b) + length (enc_blocks bs))"
    unfolding e' using Cons.prems by (intro Cons.IH) simp
  show ?case
    using r s by (simp add: enc_blocks_def)
qed

lemma read_seq_1:
  "read_seq data offset 1 = (let (b0, o1) = read_block data offset in ([b0], o1))"
  by (simp add: split_def Let_def)

lemma read_seq_2:
  "read_seq data offset 2 =
     (let (b0, o1) = read_block data offset; (b1, o2) = read_block data o1
      in ([b0, b1], o2))"
  by (simp add: numeral_2_eq_2 split_def Let_def)

lemma read_seq_3:
  "read_seq data offset 3 =
     (let (b0, o1) = read_block data offset; (b1, o2) = read_block data o1;
          (b2, o3) = read_block data o2
      in ([b0, b1, b2], o3))"
  by (simp add: numeral_3_eq_3 split_def Let_def)

lemma read_seq_6:
  "read_seq data offset 6 =
     (let (b0, o1) = read_block data offset; (b1, o2) = read_block data o1;
          (b2, o3) = read_block data o2; (b3, o4) = read_block data o3;
          (b4, o5) = read_block data o4; (b5, o6) = read_block data o5
      in ([b0, b1, b2, b3, b4, b5], o6))"
  by (simp add: eval_nat_numeral split_def Let_def)

lemma parse_blocks_read_seq:
  assumes "block_count record_type = Some k"
    and "read_seq data offset k = (bs, offset')"
    and "record_type = 0x0B \<longrightarrow> (\<exists>vs. region_vertices (bs ! 1) = Inr vs)"
  shows "parse_blocks record_type data offset = Some (Inr (prim_of (record_type, bs), offset'))"
proof -
  from assms(1) consider "record_type = 0x02" "k = 6" | "record_type = 0x04" "k = 1"
    | "record_type = 0x01" "k = 1" | "record_type = 0x05" "k = 2"
    | "record_type = 0x0B" "k = 2" | "record_type = 0x06" "k = 1"
    | "record_type = 0x0C" "k = 3"
    by (auto simp: block_count_def split: if_splits)
  then show ?thesis
  proof cases
    case 1
    with assms(2) show ?thesis
      by (auto simp: parse_blocks_def parse_pad_blocks_v2_def prim_of_def read_seq_6
          Let_def split: prod.splits)
  next
    case 2
    with assms(2) show ?thesis
      by (auto simp: parse_blocks_def parse_track_blocks_def prim_of_def read_seq_1
          Let_def split: prod.splits)
  next
    case 3
    with assms(2) show ?thesis
      by (auto simp: parse_blocks_def parse_arc_blocks_def prim_of_def read_seq_1
          Let_def split: prod.splits)
  next
    case 4
    with assms(2) show ?thesis
      by (auto simp: parse_blocks_def parse_text_blocks_def prim_of_def read_seq_2
          Let_def split: prod.splits)
  next
    case 5
    with assms(2,3) show ?thesis
      by (auto simp: parse_blocks_def parse_region_blocks_def prim_of_def read_seq_2
          Let_def split: prod.splits)
  next
    case 6
    with assms(2) show ?thesis
      by (auto simp: parse_blocks_def parse_fill_blocks_def prim_of_def read_seq_1
          Let_def split: prod.splits)
  next
    case 7
    with assms(2) show ?thesis
      by (auto simp: parse_blocks_def parse_component_body_blocks_def prim_of_def
          read_seq_3 Let_def split: prod.splits)
  qed
qed

lemma parse_blocks_wf:
  assumes "wf_prim pb"
  shows "parse_blocks (fst pb) (pre @ enc_blocks (snd pb) @ post) (length pre)
     = Some (Inr (prim_of pb, length pre + length (enc_blocks (snd pb))))"
proof -
  from assms have c: "block_count (fst pb) = Some (length (snd pb))"
    and l: "list_all (\<lambda>b. length b \<le> 100000) (snd pb)"
    by (simp_all add: wf_prim_def)
  from assms have v: "fst pb = 0x0B \<longrightarrow> (\<exists>vs. region_vertices (snd pb ! 1) = Inr vs)"
    by (cases "region_vertices (snd pb ! 1)") (simp_all add: wf_prim_def)
  have "parse_blocks (fst pb) (pre @ enc_blocks (snd pb) @ post) (length pre)
     = Some (Inr (prim_of (fst pb, snd pb), length pre + length (enc_blocks (snd pb))))"
    using c read_seq_enc [OF l] v by (rule parse_blocks_read_seq)
  then show ?thesis by simp
qed

lemma wf_prim_tag: "wf_prim pb \<Longrightarrow> fst pb \<noteq> 0"
  by (auto simp: wf_prim_def block_count_def)

lemma fp_loop_wf:
  "list_all wf_prim pbs \<Longrightarrow>
   fp_loop (pre @ enc_prims pbs @ 0 # post) (length pre) n prims
     = (Done, length pre + length (enc_prims pbs), n + length pbs, prims @ map prim_of pbs)"
proof (induction pbs arbitrary: pre n prims)
  case Nil
  show ?case by (subst fp_loop.simps) (simp add: enc_prims_def)
next
  case (Cons pb pbs)
  let ?rest = "enc_prims pbs @ 0 # post"
  let ?data = "pre @ enc_prims (pb # pbs) @ 0 # post"
  from Cons.prems have wf: "wf_prim pb" and wfs: "list_all wf_prim pbs" by simp_all
  have d1: "?data = (pre @ [fst pb]) @ enc_blocks (snd pb) @ ?rest"
    by (simp add: enc_prims_def enc_prim_def)
  have d2: "?data = (pre @ enc_prim pb) @ ?rest"
    by (simp add: enc_prims_def)
  have lt: "length pre < length ?data" by (simp add: enc_prims_def enc_prim_def)
  have tag: "?data ! length pre = fst pb" by (simp add: enc_prims_def enc_prim_def)
  have p: "parse_blocks (fst pb) ?data (length pre + 1)
      = Some (Inr (prim_of pb, length (pre @ enc_prim pb)))"
    unfolding d1 using parse_blocks_wf [OF wf, of "pre @ [fst pb]" ?rest]
    by (simp add: enc_prim_def)
  have "fp_loop ?data (length pre) n prims
      = fp_loop ?data (length (pre @ enc_prim pb)) (n + 1) (prims @ [prim_of pb])"
    using fp_loop_step [OF lt, of n prims] tag wf_prim_tag [OF wf] p by simp
  also have "\<dots> = (Done, length (pre @ enc_prim pb) + length (enc_prims pbs),
      n + 1 + length pbs, (prims @ [prim_of pb]) @ map prim_of pbs)"
    unfolding d2 by (rule Cons.IH [OF wfs])
  finally show ?case by (simp add: enc_prims_def)
qed

lemma unpack_I_enc_block:
  "length b < 2 ^ 32 \<Longrightarrow> unpack_I (enc_block b @ rest) 0 = length b"
  by (simp add: unpack_I_def slice_def enc_block_def length_le32 le_nat_le32)

text \<open>
  C8 (as amended). A buffer that holds, from some offset on, N well-formed primitives
  and then a byte 0, where a well-formed primitive is a record type that has a parser
  followed by the blocks of its kind, each block of at most 100000 bytes and each
  coordinate of a region accepted by \<open>int\<close>: the loop started at that offset decodes
  exactly the N primitives, in order, ends as done with the offset on the terminator,
  and its result does not depend on the bytes after the terminator. The same holds for
  \<open>parse_footprint_data\<close> on a name block followed by the primitives and the
  terminator.
\<close>

theorem footprint_well_formed:
  assumes "list_all wf_prim pbs"
  shows "fp_loop (pre @ enc_prims pbs @ 0 # post) (length pre) 0 []
           = (Done, length pre + length (enc_prims pbs), length pbs, map prim_of pbs)
     \<and> (length name_block < 2 ^ 32 \<longrightarrow>
          (\<exists>comp_name. parse_footprint_data (enc_block name_block @ enc_prims pbs @ [0])
             = Parsed comp_name Done (4 + length name_block + length (enc_prims pbs))
                 (length pbs) (map prim_of pbs)))"
proof (intro conjI impI)
  show "fp_loop (pre @ enc_prims pbs @ 0 # post) (length pre) 0 []
           = (Done, length pre + length (enc_prims pbs), length pbs, map prim_of pbs)"
    using fp_loop_wf [OF assms, of pre post 0 "[]"] by simp
next
  assume nb: "length name_block < 2 ^ 32"
  let ?data = "enc_block name_block @ enc_prims pbs @ [0]"
  have u: "unpack_I ?data 0 = length name_block"
    using nb by (rule unpack_I_enc_block)
  have len: "length ?data = 4 + length name_block + length (enc_prims pbs) + 1"
    by (simp add: length_enc_block)
  have loop: "fp_loop ?data (4 + length name_block) 0 []
      = (Done, 4 + length name_block + length (enc_prims pbs), length pbs, map prim_of pbs)"
    using fp_loop_wf [OF assms, of "enc_block name_block" "[]" 0 "[]"]
    by (simp add: length_enc_block)
  show "\<exists>comp_name. parse_footprint_data ?data
      = Parsed comp_name Done (4 + length name_block + length (enc_prims pbs))
          (length pbs) (map prim_of pbs)"
    unfolding parse_footprint_data_def Let_def u
    using len loop by simp
qed

lemmas eval_enc = enc_prims_def enc_prim_def enc_blocks_def enc_block_def le32_def

theorem footprint_well_formed_witness:
  "list_all wf_prim [(0x04, [[7, 8]]), (0x0B, [[5], one_vertex_block]),
                     (0x05, [[1, 2], [1, 0x41]])]
   \<and> fp_loop ([9] @ enc_prims [(0x04, [[7, 8]]), (0x0B, [[5], one_vertex_block]),
                                (0x05, [[1, 2], [1, 0x41]])] @ 0 # [0xFF]) 1 0 []
       = (Done, 51, 3,
          [Track [7, 8],
           Region [5] one_vertex_block [Vertex 0 4 0x4059000000000000 0],
           Text [1, 2] [1, 0x41] [0x41]])"
proof -
  let ?pbs = "[(0x04, [[7, 8]]), (0x0B, [[5], one_vertex_block]),
               (0x05, [[1, 2], [1, 0x41]])] :: (byte \<times> byte list list) list"
  have r: "region_vertices one_vertex_block = Inr [Vertex 0 4 0x4059000000000000 0]"
    by (simp add: one_vertex_block_def eval_region)
  have w: "list_all wf_prim ?pbs"
    by (simp add: wf_prim_def block_count_def r) (simp add: one_vertex_block_def)
  have l: "length (enc_prims ?pbs) = 50"
    by (simp add: eval_enc one_vertex_block_def)
  have p: "map prim_of ?pbs = [Track [7, 8],
           Region [5] one_vertex_block [Vertex 0 4 0x4059000000000000 0],
           Text [1, 2] [1, 0x41] [0x41]]"
    by (simp add: prim_of_def r read_string_from_block_def slice_def cp1252_char_def
        cp1252_undefined_def)
  have "fp_loop ([9] @ enc_prims ?pbs @ 0 # [0xFF]) (length [9 :: byte]) 0 []
      = (Done, length [9 :: byte] + length (enc_prims ?pbs), length ?pbs, map prim_of ?pbs)"
    using footprint_well_formed [OF w, of "[9]" "[0xFF]"] by blast
  then have "fp_loop ([9] @ enc_prims ?pbs @ 0 # [0xFF]) 1 0 []
      = (Done, 51, 3, [Track [7, 8],
           Region [5] one_vertex_block [Vertex 0 4 0x4059000000000000 0],
           Text [1, 2] [1, 0x41] [0x41]])"
    unfolding l p by simp
  with w show ?thesis by blast
qed

text \<open>
  C8 as stated fails above the ceiling of \<open>read_block\<close>: one track whose block really
  holds the 100001 bytes it declares, then the terminator. The block is read as empty,
  the offset stays on the length field, and the next turn of the loop takes the first
  byte of that field for a record type and ends as aborted.
\<close>

theorem footprint_ceiling_counterexample:
  "block_count 0x04 = Some (length [replicate 100001 (0 :: byte)])
   \<and> enc_prims [(0x04, [replicate 100001 0])] @ [0]
       = [0x04, 0xA1, 0x86, 0x01, 0x00] @ replicate 100001 0 @ [0]
   \<and> fp_loop ([0x04, 0xA1, 0x86, 0x01, 0x00] @ replicate 100001 0 @ [0]) 0 0 []
       = (Aborted 0xA1, 2, 1, [Track []])"
  by (simp add: block_count_def eval_enc fp_loop.simps parse_blocks_def
      parse_track_blocks_def read_block_def unpack_I_def slice_def)

end
